theory Spec2Isabelle
  imports Main "HOL-Library.AList"
begin

section \<open>Data model\<close>

text \<open>
  The engine codes a piece as a two-character string, colour first (\<open>w\<close>, \<open>b\<close>) and
  type second (\<open>K Q R B N P\<close>); only the twelve literal codes of the \<open>ChessPiece\<close> type
  occur, so a piece is a pair of two enumerations and \<open>null\<close> is \<open>None\<close>.
  A square is the string the callers pass in, whatever it contains.
  The position object is an association list in property order: assigning to an existing
  key keeps its place, assigning to a new key appends, \<open>delete\<close> removes the entry
  (\<open>AList.update\<close>, \<open>AList.delete\<close>). No key the engine ever writes is an array
  index, so property order is insertion order. Property lookup is modelled on the object's
  own properties: a square argument that names a property inherited from the object
  prototype (such as \<open>constructor\<close>) is outside the model. A stored value may be
  \<open>undefined\<close> or \<open>null\<close>; both are \<open>None\<close>. Characters are the 256
  values of \<open>char\<close>; code units beyond them match none of the engine's patterns and
  literals.
\<close>

datatype color = White | Black

datatype ptype = King | Queen | Rook | Bishop | Knight | Pawn

type_synonym piece = "color \<times> ptype"

type_synonym ChessPiece = "piece option"

type_synonym ChessPosition = "(string \<times> ChessPiece) list"

record Move =
  from_sq :: string
  to_sq :: string
  piece :: ChessPiece
  captured :: ChessPiece
  notationStr :: string

record ChessGame =
  position :: ChessPosition
  currentPlayer :: color
  moveHistory :: "Move list"

definition getInitialPosition :: ChessPosition where
  "getInitialPosition =
    [(''a8'', Some (Black, Rook)), (''b8'', Some (Black, Knight)), (''c8'', Some (Black, Bishop)),
     (''d8'', Some (Black, Queen)), (''e8'', Some (Black, King)), (''f8'', Some (Black, Bishop)),
     (''g8'', Some (Black, Knight)), (''h8'', Some (Black, Rook)),
     (''a7'', Some (Black, Pawn)), (''b7'', Some (Black, Pawn)), (''c7'', Some (Black, Pawn)),
     (''d7'', Some (Black, Pawn)), (''e7'', Some (Black, Pawn)), (''f7'', Some (Black, Pawn)),
     (''g7'', Some (Black, Pawn)), (''h7'', Some (Black, Pawn)),
     (''a2'', Some (White, Pawn)), (''b2'', Some (White, Pawn)), (''c2'', Some (White, Pawn)),
     (''d2'', Some (White, Pawn)), (''e2'', Some (White, Pawn)), (''f2'', Some (White, Pawn)),
     (''g2'', Some (White, Pawn)), (''h2'', Some (White, Pawn)),
     (''a1'', Some (White, Rook)), (''b1'', Some (White, Knight)), (''c1'', Some (White, Bishop)),
     (''d1'', Some (White, Queen)), (''e1'', Some (White, King)), (''f1'', Some (White, Bishop)),
     (''g1'', Some (White, Knight)), (''h1'', Some (White, Rook))]"

text \<open>The constructor.\<close>

definition newChessGame :: ChessGame where
  "newChessGame = \<lparr>position = getInitialPosition, currentPlayer = White, moveHistory = []\<rparr>"

text \<open>\<open>this.position[square]\<close>, with \<open>undefined\<close> and \<open>null\<close> both read as \<open>None\<close>.\<close>

definition propertyOf :: "ChessPosition \<Rightarrow> string \<Rightarrow> ChessPiece" where
  "propertyOf pos square = (case map_of pos square of Some v \<Rightarrow> v | None \<Rightarrow> None)"

definition getPiece :: "ChessGame \<Rightarrow> string \<Rightarrow> ChessPiece" where
  "getPiece g square = propertyOf (position g) square"

section \<open>Strings and numbers of the host language\<close>

text \<open>
  \<open>square.split("")\<close> destructured into \<open>[file, rank]\<close>: each is one character or
  \<open>undefined\<close>. A number is an integer or \<open>NaN\<close> (\<open>None\<close>); every comparison with
  \<open>NaN\<close> is false. A template literal prints \<open>undefined\<close> and \<open>NaN\<close> by name.
\<close>

definition fileOf :: "string \<Rightarrow> char option" where
  "fileOf s = (case s of [] \<Rightarrow> None | c # _ \<Rightarrow> Some c)"

definition rankOf :: "string \<Rightarrow> char option" where
  "rankOf s = (case s of _ # c # _ \<Rightarrow> Some c | _ \<Rightarrow> None)"

primrec indexOf :: "string \<Rightarrow> char \<Rightarrow> int" where
  "indexOf [] c = - 1"
| "indexOf (x # xs) c =
     (if x = c then 0 else (let i = indexOf xs c in if i < 0 then - 1 else i + 1))"

definition fileIndexOf :: "char option \<Rightarrow> int" where
  "fileIndexOf file = (case file of None \<Rightarrow> - 1 | Some c \<Rightarrow> indexOf ''abcdefgh'' c)"

text \<open>\<open>Number.parseInt\<close> of at most one character.\<close>

definition parseInt :: "char option \<Rightarrow> int option" where
  "parseInt rank =
     (case rank of None \<Rightarrow> None
      | Some c \<Rightarrow> (let i = indexOf ''0123456789'' c in if i < 0 then None else Some i))"

definition rankIndexOf :: "char option \<Rightarrow> int option" where
  "rankIndexOf rank = map_option (\<lambda>n. n - 1) (parseInt rank)"

definition digitChar :: "nat \<Rightarrow> char" where
  "digitChar d = ''0123456789'' ! d"

fun showNat :: "nat \<Rightarrow> string" where
  "showNat n = (if n < 10 then [digitChar n] else showNat (n div 10) @ [digitChar (n mod 10)])"

declare showNat.simps [simp del]

definition showInt :: "int \<Rightarrow> string" where
  "showInt i = (if i < 0 then CHR ''-'' # showNat (nat (- i)) else showNat (nat i))"

definition showNumber :: "int option \<Rightarrow> string" where
  "showNumber n = (case n of None \<Rightarrow> ''NaN'' | Some i \<Rightarrow> showInt i)"

definition showChar :: "char option \<Rightarrow> string" where
  "showChar c = (case c of None \<Rightarrow> ''undefined'' | Some ch \<Rightarrow> [ch])"

text \<open>\<open>"abcdefgh"[i]\<close>, read only after the bounds check \<open>0 \<le> i < 8\<close>.\<close>

definition fileChar :: "int \<Rightarrow> char" where
  "fileChar i = ''abcdefgh'' ! nat i"

definition inBounds :: "int \<Rightarrow> int option \<Rightarrow> bool" where
  "inBounds newFileIndex newRankIndex =
     (0 \<le> newFileIndex \<and> newFileIndex < 8 \<and>
      (case newRankIndex of None \<Rightarrow> False | Some r \<Rightarrow> 0 \<le> r \<and> r < 8))"

text \<open>The comparison \<open>a < b\<close> of two strings: by code unit, a proper prefix first.\<close>

fun stringLess :: "string \<Rightarrow> string \<Rightarrow> bool" where
  "stringLess [] [] = False"
| "stringLess [] (y # ys) = True"
| "stringLess (x # xs) [] = False"
| "stringLess (x # xs) (y # ys) =
     (if (of_char x :: nat) < of_char y then True
      else if (of_char y :: nat) < of_char x then False
      else stringLess xs ys)"

definition charCodeAt0 :: "string \<Rightarrow> int option" where
  "charCodeAt0 s = (case s of [] \<Rightarrow> None | c # _ \<Rightarrow> Some (of_char c))"

section \<open>Move generator\<close>

definition isValidSquare :: "string \<Rightarrow> bool" where
  "isValidSquare square =
     (case square of
        [f, r] \<Rightarrow> f \<in> set ''abcdefgh'' \<and> r \<in> set ''12345678''
      | _ \<Rightarrow> False)"

definition canMoveTo :: "ChessGame \<Rightarrow> string \<Rightarrow> string \<Rightarrow> bool" where
  "canMoveTo g from to =
     (case getPiece g from of
        None \<Rightarrow> False
      | Some fromPiece \<Rightarrow>
          (case getPiece g to of
             Some toPiece \<Rightarrow> fst toPiece \<noteq> fst fromPiece
           | None \<Rightarrow> True))"

text \<open>The body of the pawn's capture loop, for one \<open>fileOffset\<close>.\<close>

definition pawnCapture ::
    "ChessGame \<Rightarrow> color \<Rightarrow> int \<Rightarrow> int option \<Rightarrow> int \<Rightarrow> int \<Rightarrow> string list" where
  "pawnCapture g col fileIndex rankIndex direction fileOffset =
     (let newFileIndex = fileIndex + fileOffset in
      if 0 \<le> newFileIndex \<and> newFileIndex < 8 then
        (let captureSquare =
               fileChar newFileIndex # showNumber (map_option (\<lambda>r. r + 1 + direction) rankIndex)
         in if isValidSquare captureSquare then
              (case getPiece g captureSquare of
                 Some targetPiece \<Rightarrow> if fst targetPiece \<noteq> col then [captureSquare] else []
               | None \<Rightarrow> [])
            else [])
      else [])"

definition getPawnMoves :: "ChessGame \<Rightarrow> string \<Rightarrow> color \<Rightarrow> string list" where
  "getPawnMoves g square col =
     (let file = fileOf square;
          rank = rankOf square;
          fileIndex = fileIndexOf file;
          rankIndex = rankIndexOf rank;
          direction = (if col = White then 1 else - 1);
          startRank = (if col = White then 1 else 6);
          oneForward = showChar file @ showNumber (map_option (\<lambda>r. r + 1 + direction) rankIndex);
          forward =
            (if isValidSquare oneForward \<and> getPiece g oneForward = None then
               oneForward #
               (if rankIndex = Some startRank then
                  (let twoForward =
                         showChar file @ showNumber (map_option (\<lambda>r. r + 1 + direction * 2) rankIndex)
                   in if isValidSquare twoForward \<and> getPiece g twoForward = None
                      then [twoForward] else [])
                else [])
             else []);
          captures = concat (map (pawnCapture g col fileIndex rankIndex direction) [- 1, 1])
      in forward @ captures)"

text \<open>
  The ray walk of \<open>getLinearMoves\<close>, from the first square after the origin. The loop
  ends at the board's edge or at the first piece; the guard on the direction records that
  the callers pass the eight non-zero vectors only. The origin's colour is the source's
  \<open>this.getPiece(square)![0]\<close>: \<open>getValidMoves\<close>, the only way in, has returned before
  for an empty origin.
\<close>

function linearWalk :: "ChessGame \<Rightarrow> string \<Rightarrow> int \<Rightarrow> int \<Rightarrow> int \<Rightarrow> int option \<Rightarrow> string list" where
  "linearWalk g square dx dy newFileIndex newRankIndex =
     (if inBounds newFileIndex newRankIndex \<and> (dx \<noteq> 0 \<or> dy \<noteq> 0) then
        (let newSquare = fileChar newFileIndex # showNumber (map_option (\<lambda>r. r + 1) newRankIndex)
         in case getPiece g newSquare of
              None \<Rightarrow> newSquare #
                linearWalk g square dx dy (newFileIndex + dx) (map_option (\<lambda>r. r + dy) newRankIndex)
            | Some p \<Rightarrow>
                (if Some (fst p) \<noteq> map_option fst (getPiece g square) then [newSquare] else []))
      else [])"
  by pat_completeness auto
termination
proof (relation "measure (\<lambda>(g, square, dx, dy, f, r).
          (if 0 < dx then nat (8 - f) else if dx < 0 then nat (f + 1)
           else if 0 < dy then nat (8 - the r) else nat (the r + 1)))", goal_cases)
  case 1
  show ?case by simp
next
  case (2 g square dx dy newFileIndex newRankIndex x)
  then show ?case
    by (cases newRankIndex) (auto simp: inBounds_def)
qed

declare linearWalk.simps [simp del]

definition getLinearMoves :: "ChessGame \<Rightarrow> string \<Rightarrow> int \<Rightarrow> int \<Rightarrow> string list" where
  "getLinearMoves g square dx dy =
     (let fileIndex = fileIndexOf (fileOf square);
          rankIndex = rankIndexOf (rankOf square)
      in linearWalk g square dx dy (fileIndex + dx) (map_option (\<lambda>r. r + dy) rankIndex))"

definition getRookMoves :: "ChessGame \<Rightarrow> string \<Rightarrow> string list" where
  "getRookMoves g square =
     concat (map (\<lambda>(dx, dy). getLinearMoves g square dx dy) [(0, 1), (0, - 1), (1, 0), (- 1, 0)])"

definition getBishopMoves :: "ChessGame \<Rightarrow> string \<Rightarrow> string list" where
  "getBishopMoves g square =
     concat (map (\<lambda>(dx, dy). getLinearMoves g square dx dy) [(1, 1), (1, - 1), (- 1, 1), (- 1, - 1)])"

definition getQueenMoves :: "ChessGame \<Rightarrow> string \<Rightarrow> string list" where
  "getQueenMoves g square = getRookMoves g square @ getBishopMoves g square"

text \<open>The body shared by the knight's and the king's loops: one offset, bounds-checked.\<close>

definition offsetSquare :: "int \<Rightarrow> int option \<Rightarrow> int \<times> int \<Rightarrow> string list" where
  "offsetSquare fileIndex rankIndex d =
     (let newFileIndex = fileIndex + fst d;
          newRankIndex = map_option (\<lambda>r. r + snd d) rankIndex
      in if inBounds newFileIndex newRankIndex
         then [fileChar newFileIndex # showNumber (map_option (\<lambda>r. r + 1) newRankIndex)]
         else [])"

definition getKnightMoves :: "string \<Rightarrow> string list" where
  "getKnightMoves square =
     (let fileIndex = fileIndexOf (fileOf square);
          rankIndex = rankIndexOf (rankOf square)
      in concat (map (offsetSquare fileIndex rankIndex)
           [(- 2, - 1), (- 2, 1), (- 1, - 2), (- 1, 2), (1, - 2), (1, 2), (2, - 1), (2, 1)]))"

definition getKingMoves :: "string \<Rightarrow> string list" where
  "getKingMoves square =
     (let fileIndex = fileIndexOf (fileOf square);
          rankIndex = rankIndexOf (rankOf square)
      in concat (map (\<lambda>dx. concat (map (\<lambda>dy.
           if dx = 0 \<and> dy = 0 then [] else offsetSquare fileIndex rankIndex (dx, dy))
           [- 1, 0, 1])) [- 1, 0, 1]))"

definition getValidMoves :: "ChessGame \<Rightarrow> string \<Rightarrow> string list" where
  "getValidMoves g square =
     (case getPiece g square of
        None \<Rightarrow> []
      | Some pc \<Rightarrow>
          if fst pc \<noteq> currentPlayer g then []
          else
            (let moves =
               (case snd pc of
                  Pawn \<Rightarrow> getPawnMoves g square (fst pc)
                | Rook \<Rightarrow> getRookMoves g square
                | Knight \<Rightarrow> getKnightMoves square
                | Bishop \<Rightarrow> getBishopMoves g square
                | Queen \<Rightarrow> getQueenMoves g square
                | King \<Rightarrow> getKingMoves square)
             in filter (\<lambda>move. isValidSquare move \<and> canMoveTo g square move) moves))"

section \<open>Notation codec: generation\<close>

definition typeLetter :: "ptype \<Rightarrow> char" where
  "typeLetter t =
     (case t of King \<Rightarrow> CHR ''K'' | Queen \<Rightarrow> CHR ''Q'' | Rook \<Rightarrow> CHR ''R''
      | Bishop \<Rightarrow> CHR ''B'' | Knight \<Rightarrow> CHR ''N'' | Pawn \<Rightarrow> CHR ''P'')"

definition findAmbiguousMoves :: "ChessGame \<Rightarrow> string \<Rightarrow> string \<Rightarrow> ChessPiece \<Rightarrow> string list" where
  "findAmbiguousMoves g from to pc =
     (case pc of
        None \<Rightarrow> []
      | Some p \<Rightarrow>
          filter (\<lambda>square.
            (case propertyOf (position g) square of
               Some otherPiece \<Rightarrow>
                 fst otherPiece = fst p \<and> snd otherPiece = snd p \<and> square \<noteq> from \<and>
                 to \<in> set (getValidMoves g square)
             | None \<Rightarrow> False))
            (map fst (position g)))"

definition generateMoveNotation ::
    "ChessGame \<Rightarrow> string \<Rightarrow> string \<Rightarrow> ChessPiece \<Rightarrow> ChessPiece \<Rightarrow> string" where
  "generateMoveNotation g from to pc capt =
     (case pc of
        None \<Rightarrow> ''''
      | Some p \<Rightarrow>
          if snd p = Pawn then
            (if capt \<noteq> None \<or> fileOf from \<noteq> fileOf to
             then showChar (fileOf from) @ ''x'' @ to
             else to)
          else
            (let ambiguousMoves = findAmbiguousMoves g from to pc;
                 disambiguator =
                   (if ambiguousMoves \<noteq> [] then
                      (let sameFile = (\<exists>move \<in> set ambiguousMoves. fileOf move = fileOf from);
                           sameRank = (\<exists>move \<in> set ambiguousMoves. rankOf move = rankOf from)
                       in if \<not> sameFile then showChar (fileOf from)
                          else if \<not> sameRank then showChar (rankOf from)
                          else from)
                    else '''')
             in [typeLetter (snd p)] @ disambiguator @ (if capt \<noteq> None then ''x'' else '''') @ to))"

section \<open>Move executor\<close>

definition otherPlayer :: "color \<Rightarrow> color" where
  "otherPlayer c = (if c = White then Black else White)"

definition isCastlingShift :: "ptype \<Rightarrow> string \<Rightarrow> string \<Rightarrow> bool" where
  "isCastlingShift t from to =
     (t = King \<and>
      (case (charCodeAt0 from, charCodeAt0 to) of
         (Some a, Some b) \<Rightarrow> \<bar>a - b\<bar> = 2
       | _ \<Rightarrow> False))"

definition makeMove :: "string \<Rightarrow> string \<Rightarrow> ChessGame \<Rightarrow> bool \<times> ChessGame" where
  "makeMove from to g =
     (case getPiece g from of
        None \<Rightarrow> (False, g)
      | Some pc \<Rightarrow>
          if fst pc \<noteq> currentPlayer g then (False, g)
          else if to \<notin> set (getValidMoves g from) then (False, g)
          else
            (let capt = getPiece g to;
                 notation0 = generateMoveNotation g from to (Some pc) capt;
                 (pos1, notation1) =
                   (if isCastlingShift (snd pc) from to then
                      (let isKingside = stringLess from to;
                           rookFrom = (if isKingside then ''h'' else ''a'') @ showChar (rankOf from);
                           rookTo = (if isKingside then ''f'' else ''d'') @ showChar (rankOf from)
                       in (AList.delete rookFrom
                             (AList.update rookTo (propertyOf (position g) rookFrom) (position g)),
                           if isKingside then ''O-O'' else ''O-O-O''))
                    else (position g, notation0));
                 pos2 = AList.delete from (AList.update to (Some pc) pos1)
             in (True,
                 \<lparr>position = pos2,
                  currentPlayer = otherPlayer (currentPlayer g),
                  moveHistory = moveHistory g @
                    [\<lparr>from_sq = from, to_sq = to, piece = Some pc, captured = capt,
                      notationStr = notation1\<rparr>]\<rparr>)))"

definition getLastMoveNotation :: "ChessGame \<Rightarrow> string" where
  "getLastMoveNotation g =
     (if moveHistory g = [] then '''' else notationStr (last (moveHistory g)))"

text \<open>
  A sequence of \<open>makeMove\<close> calls on one game; a refused call leaves the game as it was.
\<close>

fun play :: "(string \<times> string) list \<Rightarrow> ChessGame \<Rightarrow> ChessGame" where
  "play [] g = g"
| "play ((from, to) # ms) g = play ms (snd (makeMove from to g))"

section \<open>Notation codec: parsing\<close>

text \<open>
  \<open>notation.replace(/[+#!?]+$/, "")\<close> removes the longest run of annotation glyphs
  at the end; \<open>trim()\<close> then removes white space at both ends.
\<close>

definition stripGlyphs :: "string \<Rightarrow> string" where
  "stripGlyphs s = rev (dropWhile (\<lambda>c. c \<in> set ''+#!?'') (rev s))"

definition isWhiteSpace :: "char \<Rightarrow> bool" where
  "isWhiteSpace c = (c \<in> set [CHR 0x09, CHR 0x0A, CHR 0x0B, CHR 0x0C, CHR 0x0D, CHR 0x20, CHR 0xA0])"

definition trim :: "string \<Rightarrow> string" where
  "trim s = rev (dropWhile isWhiteSpace (rev (dropWhile isWhiteSpace s)))"

text \<open>
  Each regular expression of the parser is anchored at both ends and is a sequence of
  character classes, one per character.
\<close>

definition matches :: "(char \<Rightarrow> bool) list \<Rightarrow> string \<Rightarrow> bool" where
  "matches classes s = list_all2 (\<lambda>cl c. cl c) classes s"

definition isFileChar :: "char \<Rightarrow> bool" where
  "isFileChar c = (c \<in> set ''abcdefgh'')"

definition isRankChar :: "char \<Rightarrow> bool" where
  "isRankChar c = (c \<in> set ''12345678'')"

definition isPieceLetter :: "char \<Rightarrow> bool" where
  "isPieceLetter c = (c \<in> set ''KQRBN'')"

definition isX :: "char \<Rightarrow> bool" where
  "isX c = (c = CHR ''x'')"

text \<open>
  The pattern chain, in the source's order. The result is
  \<open>(pieceType, fromFile, fromRank, isCapture, toSquare)\<close>; an empty \<open>fromFile\<close> or
  \<open>fromRank\<close> is \<open>None\<close>, and \<open>None\<close> for the whole is the unrecognised pattern.
\<close>

definition notationPattern :: "string \<Rightarrow> (char \<times> char option \<times> char option \<times> bool \<times> string) option" where
  "notationPattern n =
     (if matches [isFileChar, isRankChar] n then
        Some (CHR ''P'', None, None, False, n)
      else if matches [isFileChar, isX, isFileChar, isRankChar] n then
        Some (CHR ''P'', Some (n ! 0), None, True, drop 2 n)
      else if matches [isPieceLetter, isFileChar, isRankChar] n then
        Some (n ! 0, None, None, False, drop 1 n)
      else if matches [isPieceLetter, isX, isFileChar, isRankChar] n then
        Some (n ! 0, None, None, True, drop 2 n)
      else if matches [isPieceLetter, isFileChar, isFileChar, isRankChar] n then
        Some (n ! 0, Some (n ! 1), None, False, drop 2 n)
      else if matches [isPieceLetter, isRankChar, isFileChar, isRankChar] n then
        Some (n ! 0, None, Some (n ! 1), False, drop 2 n)
      else if matches [isPieceLetter, isFileChar, isX, isFileChar, isRankChar] n then
        Some (n ! 0, Some (n ! 1), None, True, drop 3 n)
      else if matches [isPieceLetter, isRankChar, isX, isFileChar, isRankChar] n then
        Some (n ! 0, None, Some (n ! 1), True, drop 3 n)
      else None)"

definition colorLetter :: "color \<Rightarrow> char" where
  "colorLetter c = (if c = White then CHR ''w'' else CHR ''b'')"

text \<open>The two-character code of a piece, as the source stores it.\<close>

definition pieceCode :: "piece \<Rightarrow> string" where
  "pieceCode p = [colorLetter (fst p), typeLetter (snd p)]"

definition findCandidatePieces ::
    "ChessGame \<Rightarrow> char \<Rightarrow> string \<Rightarrow> char option \<Rightarrow> char option \<Rightarrow> bool \<Rightarrow> string list" where
  "findCandidatePieces g pieceType toSquare fromFile fromRank isCapture =
     (let targetPieceCode = [colorLetter (currentPlayer g), pieceType] in
      filter (\<lambda>square.
        (case propertyOf (position g) square of
           None \<Rightarrow> False
         | Some pc \<Rightarrow>
             pieceCode pc = targetPieceCode \<and>
             (case fromFile of None \<Rightarrow> True | Some f \<Rightarrow> fileOf square = Some f) \<and>
             (case fromRank of None \<Rightarrow> True | Some r \<Rightarrow> rankOf square = Some r) \<and>
             toSquare \<in> set (getValidMoves g square) \<and>
             (let targetPiece = getPiece g toSquare in
              if isCapture then
                (if targetPiece \<noteq> None \<and> map_option fst targetPiece \<noteq> Some (currentPlayer g) then True
                 else if pieceType = CHR ''P'' \<and> targetPiece = None then
                   (let file = fileOf toSquare;
                        rank = rankOf toSquare;
                        captureRank = (if currentPlayer g = White then ''5'' else ''4'')
                    in if rank = Some (if currentPlayer g = White then CHR ''6'' else CHR ''3'') then
                         (case getPiece g (showChar file @ captureRank) of
                            Some enPassantPiece \<Rightarrow>
                              fst enPassantPiece \<noteq> currentPlayer g \<and> snd enPassantPiece = Pawn
                          | None \<Rightarrow> False)
                       else False)
                 else False)
              else targetPiece = None)))
        (map fst (position g)))"

definition parseAlgebraicNotation :: "ChessGame \<Rightarrow> string \<Rightarrow> (string \<times> string) option" where
  "parseAlgebraicNotation g notation0 =
     (let n = trim (stripGlyphs notation0);
          rank = (if currentPlayer g = White then ''1'' else ''8'')
      in if n = ''O-O'' \<or> n = ''0-0'' then Some (''e'' @ rank, ''g'' @ rank)
         else if n = ''O-O-O'' \<or> n = ''0-0-0'' then Some (''e'' @ rank, ''c'' @ rank)
         else
           (case notationPattern n of
              None \<Rightarrow> None
            | Some (pieceType, fromFile, fromRank, isCapture, toSquare) \<Rightarrow>
                (case findCandidatePieces g pieceType toSquare fromFile fromRank isCapture of
                   [] \<Rightarrow> None
                 | candidate # _ \<Rightarrow> Some (candidate, toSquare))))"

section \<open>Scenario positions\<close>

text \<open>Positions reached from the constructor by the moves listed.\<close>

definition afterE4 :: ChessGame where
  "afterE4 = play [(''e2'', ''e4'')] newChessGame"

definition enPassantGame :: ChessGame where
  "enPassantGame =
     play [(''e2'', ''e4''), (''a7'', ''a6''), (''e4'', ''e5''), (''d7'', ''d5'')] newChessGame"

text \<open>The number of calls in a sequence that return true.\<close>

fun successes :: "(string \<times> string) list \<Rightarrow> ChessGame \<Rightarrow> nat" where
  "successes [] g = 0"
| "successes ((from, to) # ms) g =
     (if fst (makeMove from to g) then 1 else 0) + successes ms (snd (makeMove from to g))"

definition afterE4E5 :: ChessGame where
  "afterE4E5 = play [(''e2'', ''e4''), (''e7'', ''e5'')] newChessGame"

definition afterE4E5Nf3 :: ChessGame where
  "afterE4E5Nf3 = play [(''e2'', ''e4''), (''e7'', ''e5''), (''g1'', ''f3'')] newChessGame"

definition pawnOnA7Game :: ChessGame where
  "pawnOnA7Game =
     play [(''a2'', ''a4''), (''b7'', ''b5''), (''a4'', ''b5''), (''a7'', ''a6''),
           (''b5'', ''a6''), (''h7'', ''h6''), (''a6'', ''a7''), (''h6'', ''h5'')] newChessGame"

definition knightsB1D2 :: ChessGame where
  "knightsB1D2 =
     play [(''d2'', ''d4''), (''a7'', ''a6''), (''g1'', ''f3''), (''a6'', ''a5''),
           (''f3'', ''d2''), (''a5'', ''a4'')] newChessGame"

definition knightsB1E2 :: ChessGame where
  "knightsB1E2 =
     play [(''e2'', ''e4''), (''a7'', ''a6''), (''g1'', ''e2''), (''a6'', ''a5'')] newChessGame"

section \<open>Invariant of the position object\<close>

text \<open>Every key of the position object is a board square.\<close>

definition validKeys :: "ChessGame \<Rightarrow> bool" where
  "validKeys g = list_all isValidSquare (map fst (position g))"

section \<open>Game objects in a store\<close>

text \<open>
  For the claim about \<open>clone\<close> the objects are placed in a store. A \<open>ChessGame\<close>
  object holds a reference to its position object, the \<open>currentPlayer\<close> field and a
  reference to its history array. References are allocated in increasing order.
  \<open>makeMove\<close> reads and writes through \<open>this\<close> only: it runs on the game the
  object denotes (\<open>gameAt\<close>) and stores the new position and history at the addresses
  the object already refers to. \<open>clone\<close> runs the constructor, then replaces the new
  object's position by a fresh copy \<open>{ ...this.position }\<close>, its player by
  \<open>this.currentPlayer\<close> and its history by a fresh copy \<open>[...this.moveHistory]\<close>.
  The \<open>Move\<close> records and piece codes are immutable values.
\<close>

type_synonym ref = nat

record GameObject =
  positionRef :: ref
  playerField :: color
  historyRef :: ref

record Heap =
  positionObjects :: "ref \<Rightarrow> ChessPosition"
  historyArrays :: "ref \<Rightarrow> Move list"
  gameObjects :: "ref \<Rightarrow> GameObject"
  nextRef :: ref

definition emptyHeap :: Heap where
  "emptyHeap =
     \<lparr>positionObjects = (\<lambda>_. []), historyArrays = (\<lambda>_. []),
      gameObjects = (\<lambda>_. \<lparr>positionRef = 0, playerField = White, historyRef = 0\<rparr>),
      nextRef = 0\<rparr>"

definition allocPosition :: "ChessPosition \<Rightarrow> Heap \<Rightarrow> ref \<times> Heap" where
  "allocPosition pos h =
     (nextRef h, h\<lparr>positionObjects := (positionObjects h)(nextRef h := pos),
                   nextRef := Suc (nextRef h)\<rparr>)"

definition allocHistory :: "Move list \<Rightarrow> Heap \<Rightarrow> ref \<times> Heap" where
  "allocHistory ms h =
     (nextRef h, h\<lparr>historyArrays := (historyArrays h)(nextRef h := ms),
                   nextRef := Suc (nextRef h)\<rparr>)"

definition allocGame :: "GameObject \<Rightarrow> Heap \<Rightarrow> ref \<times> Heap" where
  "allocGame ob h =
     (nextRef h, h\<lparr>gameObjects := (gameObjects h)(nextRef h := ob),
                   nextRef := Suc (nextRef h)\<rparr>)"

definition constructGame :: "Heap \<Rightarrow> ref \<times> Heap" where
  "constructGame h =
     (let (p, h1) = allocPosition getInitialPosition h;
          (a, h2) = allocHistory [] h1
      in allocGame \<lparr>positionRef = p, playerField = White, historyRef = a\<rparr> h2)"

definition gameAt :: "Heap \<Rightarrow> ref \<Rightarrow> ChessGame" where
  "gameAt h this =
     (let ob = gameObjects h this
      in \<lparr>position = positionObjects h (positionRef ob),
          currentPlayer = playerField ob,
          moveHistory = historyArrays h (historyRef ob)\<rparr>)"

definition getPieceAt :: "Heap \<Rightarrow> ref \<Rightarrow> string \<Rightarrow> ChessPiece" where
  "getPieceAt h this square = getPiece (gameAt h this) square"

definition makeMoveAt :: "ref \<Rightarrow> string \<Rightarrow> string \<Rightarrow> Heap \<Rightarrow> bool \<times> Heap" where
  "makeMoveAt this from to h =
     (let ob = gameObjects h this;
          (ok, g') = makeMove from to (gameAt h this)
      in (ok,
          h\<lparr>positionObjects := (positionObjects h)(positionRef ob := position g'),
            historyArrays := (historyArrays h)(historyRef ob := moveHistory g'),
            gameObjects := (gameObjects h)(this := ob\<lparr>playerField := currentPlayer g'\<rparr>)\<rparr>))"

definition clone :: "ref \<Rightarrow> Heap \<Rightarrow> ref \<times> Heap" where
  "clone this h =
     (let (newGame, h1) = constructGame h;
          (p, h2) = allocPosition (positionObjects h1 (positionRef (gameObjects h1 this))) h1;
          h3 = h2\<lparr>gameObjects := (gameObjects h2)(newGame := (gameObjects h2 newGame)\<lparr>positionRef := p\<rparr>)\<rparr>;
          h4 = h3\<lparr>gameObjects := (gameObjects h3)
                  (newGame := (gameObjects h3 newGame)\<lparr>playerField := playerField (gameObjects h3 this)\<rparr>)\<rparr>;
          (a, h5) = allocHistory (historyArrays h4 (historyRef (gameObjects h4 this))) h4;
          h6 = h5\<lparr>gameObjects := (gameObjects h5)(newGame := (gameObjects h5 newGame)\<lparr>historyRef := a\<rparr>)\<rparr>
      in (newGame, h6))"

fun playAt :: "ref \<Rightarrow> (string \<times> string) list \<Rightarrow> Heap \<Rightarrow> Heap" where
  "playAt this [] h = h"
| "playAt this ((from, to) # ms) h = playAt this ms (snd (makeMoveAt this from to h))"

definition firstGame :: ref where
  "firstGame = fst (constructGame emptyHeap)"

definition firstHeap :: Heap where
  "firstHeap = snd (constructGame emptyHeap)"

text \<open>
  A game object is allocated when it and the two objects it refers to lie below the
  allocation pointer; two game objects are separate when they are different objects that
  refer to different position objects and different history arrays.
\<close>

definition allocated :: "Heap \<Rightarrow> ref \<Rightarrow> bool" where
  "allocated h this =
     (this < nextRef h \<and> positionRef (gameObjects h this) < nextRef h \<and>
      historyRef (gameObjects h this) < nextRef h)"

definition separate :: "Heap \<Rightarrow> ref \<Rightarrow> ref \<Rightarrow> bool" where
  "separate h a b =
     (a \<noteq> b \<and> positionRef (gameObjects h a) \<noteq> positionRef (gameObjects h b) \<and>
      historyRef (gameObjects h a) \<noteq> historyRef (gameObjects h b))"

section \<open>Invariant of reachable games\<close>

text \<open>
  The squares that hold a given piece; the invariant of every game reached from the
  constructor: all keys are board squares, no key occurs twice, and no piece other than a
  pawn stands on more than two squares (nothing ever adds a piece: there is no promotion).
\<close>

definition pieceSquares :: "ChessGame \<Rightarrow> piece \<Rightarrow> string set" where
  "pieceSquares g p = {sq. getPiece g sq = Some p}"

definition gameInvariant :: "ChessGame \<Rightarrow> bool" where
  "gameInvariant g =
     (validKeys g \<and> distinct (map fst (position g)) \<and>
      (\<forall>p. snd p \<noteq> Pawn \<longrightarrow> card (pieceSquares g p) \<le> 2))"

text \<open>The \<open>direction\<close> of \<open>getPawnMoves\<close>.\<close>

definition pawnDirection :: "color \<Rightarrow> int" where
  "pawnDirection c = (if c = White then 1 else - 1)"

section \<open>The move executor refuses without effect\<close>




section \<open>Castling from the starting position\<close>

text \<open>
  Claim C1, as stated, fails: from the starting position \<open>makeMove "e1" "g1"\<close> does
  not return true, the h1 rook is not relocated and no \<open>O-O\<close> is recorded.
\<close>

theorem castling_from_start_counterexample:
  "\<not> (fst (makeMove ''e1'' ''g1'' newChessGame) = True \<and>
      getPiece (snd (makeMove ''e1'' ''g1'' newChessGame)) ''f1'' = Some (White, Rook) \<and>
      getLastMoveNotation (snd (makeMove ''e1'' ''g1'' newChessGame)) = ''O-O'')"
  by code_simp

text \<open>
  Claim C1, amended. From the starting position \<open>makeMove "e1" "g1"\<close> and
  \<open>makeMove "e1" "c1"\<close> return false and leave the game as it was: g1 and c1 hold
  White's own pieces, the king has no valid move, the rooks stay on h1 and a1 and the last
  notation stays empty. The same holds for Black from e8, with White to move and also
  after 1.e4 with Black to move.
\<close>

theorem castling_from_start_refused:
  "makeMove ''e1'' ''g1'' newChessGame = (False, newChessGame) \<and>
   makeMove ''e1'' ''c1'' newChessGame = (False, newChessGame) \<and>
   makeMove ''e8'' ''g8'' newChessGame = (False, newChessGame) \<and>
   makeMove ''e8'' ''c8'' newChessGame = (False, newChessGame) \<and>
   currentPlayer afterE4 = Black \<and>
   makeMove ''e8'' ''g8'' afterE4 = (False, afterE4) \<and>
   makeMove ''e8'' ''c8'' afterE4 = (False, afterE4) \<and>
   getValidMoves newChessGame ''e1'' = [] \<and> getValidMoves afterE4 ''e8'' = [] \<and>
   getPiece newChessGame ''g1'' = Some (White, Knight) \<and>
   getPiece newChessGame ''c1'' = Some (White, Bishop) \<and>
   getPiece newChessGame ''h1'' = Some (White, Rook) \<and>
   getPiece newChessGame ''a1'' = Some (White, Rook) \<and>
   getLastMoveNotation newChessGame = ''''"
  by code_simp

section \<open>En-passant notation\<close>

text \<open>
  Claim C3, evaluated at the position after 1.e4 a6 2.e5 d5: a white pawn on e5, a black
  pawn on d5 that has just advanced two squares, d6 empty, White to move. The parser
  returns \<open>null\<close> for \<open>exd6\<close>: d6 is not among the valid moves of the e5 pawn, so the
  pawn is dropped before the en-passant test is reached.
\<close>

theorem enPassant_parse_fails:
  "getPiece enPassantGame ''e5'' = Some (White, Pawn) \<and>
   getPiece enPassantGame ''d5'' = Some (Black, Pawn) \<and>
   getPiece enPassantGame ''d6'' = None \<and>
   currentPlayer enPassantGame = White \<and>
   getLastMoveNotation enPassantGame = ''d5'' \<and>
   getValidMoves enPassantGame ''e5'' = [''e6''] \<and>
   parseAlgebraicNotation enPassantGame ''exd6'' = None"
  by code_simp

section \<open>What a successful move changes\<close>

lemma makeMove_cases:
  "makeMove from to g = (False, g) \<or>
   (\<exists>pc pos nota. getPiece g from = Some pc \<and> fst pc = currentPlayer g \<and>
      to \<in> set (getValidMoves g from) \<and>
      (\<not> isCastlingShift (snd pc) from to \<longrightarrow>
         pos = position g \<and> nota = generateMoveNotation g from to (Some pc) (getPiece g to)) \<and>
      makeMove from to g =
        (True, \<lparr>position = AList.delete from (AList.update to (Some pc) pos),
                currentPlayer = otherPlayer (currentPlayer g),
                moveHistory = moveHistory g @
                  [\<lparr>from_sq = from, to_sq = to, piece = Some pc, captured = getPiece g to,
                    notationStr = nota\<rparr>]\<rparr>))"
  by (auto simp: makeMove_def Let_def split: option.splits prod.splits)

lemma getLastMoveNotation_snoc:
  "moveHistory g = h @ [m] \<Longrightarrow> getLastMoveNotation g = notationStr m"
  by (simp add: getLastMoveNotation_def)

lemma makeMove_success_step:
  assumes "makeMove from to g = (True, g')"
  shows "currentPlayer g' = otherPlayer (currentPlayer g)"
    and "length (moveHistory g') = length (moveHistory g) + 1"
  using makeMove_cases [of "from" "to" g] assms by auto

lemma otherPlayer_neq: "otherPlayer c \<noteq> c"
  by (simp add: otherPlayer_def)

lemma otherPlayer_twice: "otherPlayer (otherPlayer c) = c"
  by (cases c) (simp_all add: otherPlayer_def)

lemma makeMove_fst_snd:
  "(\<not> fst (makeMove from to g) \<and> snd (makeMove from to g) = g) \<or>
   (fst (makeMove from to g) \<and>
    currentPlayer (snd (makeMove from to g)) = otherPlayer (currentPlayer g) \<and>
    length (moveHistory (snd (makeMove from to g))) = length (moveHistory g) + 1)"
  using makeMove_cases [of "from" "to" g] by auto

lemma play_history_length:
  "length (moveHistory (play ms g)) = length (moveHistory g) + successes ms g"
proof (induction ms arbitrary: g)
  case Nil
  show ?case by simp
next
  case (Cons m ms)
  obtain f t where m: "m = (f, t)" by (cases m)
  show ?case
    using makeMove_fst_snd [of f t g] Cons.IH [of "snd (makeMove f t g)"]
    by (auto simp: m)
qed

lemma play_currentPlayer:
  "currentPlayer (play ms g) =
     (if even (successes ms g) then currentPlayer g else otherPlayer (currentPlayer g))"
proof (induction ms arbitrary: g)
  case Nil
  show ?case by simp
next
  case (Cons m ms)
  obtain f t where m: "m = (f, t)" by (cases m)
  show ?case
    using makeMove_fst_snd [of f t g] Cons.IH [of "snd (makeMove f t g)"]
    by (auto simp: m otherPlayer_twice)
qed

text \<open>
  Claim C5. A successful \<open>makeMove\<close> hands the move to the other colour and makes the
  history one entry longer. Hence, over any sequence of calls, the history grows by the
  number of successful calls and the side to move is the starting side exactly when that
  number is even; from the constructor the history length equals the number of successful
  calls and White is to move exactly after an even number of them.
\<close>

theorem makeMove_flips_and_records:
  "(makeMove from to g = (True, g') \<longrightarrow>
      currentPlayer g' = otherPlayer (currentPlayer g) \<and>
      currentPlayer g' \<noteq> currentPlayer g \<and>
      length (moveHistory g') = length (moveHistory g) + 1) \<and>
   length (moveHistory (play ms g)) = length (moveHistory g) + successes ms g \<and>
   currentPlayer (play ms g) =
     (if even (successes ms g) then currentPlayer g else otherPlayer (currentPlayer g)) \<and>
   length (moveHistory (play ms newChessGame)) = successes ms newChessGame \<and>
   currentPlayer (play ms newChessGame) =
     (if even (successes ms newChessGame) then White else Black)"
proof -
  have "length (moveHistory (play ms newChessGame)) = successes ms newChessGame"
    using play_history_length [of ms newChessGame] by (simp add: newChessGame_def)
  moreover have "currentPlayer (play ms newChessGame) =
     (if even (successes ms newChessGame) then White else Black)"
    using play_currentPlayer [of ms newChessGame] by (simp add: newChessGame_def otherPlayer_def)
  ultimately show ?thesis
    using makeMove_success_step [of "from" "to" g g'] otherPlayer_neq [of "currentPlayer g"]
      play_history_length [of ms g] play_currentPlayer [of ms g]
    by auto
qed

theorem makeMove_flips_and_records_witness:
  "makeMove ''e2'' ''e4'' newChessGame = (True, afterE4) \<and>
   currentPlayer newChessGame = White \<and> currentPlayer afterE4 = Black \<and>
   length (moveHistory newChessGame) = 0 \<and> length (moveHistory afterE4) = 1 \<and>
   successes [(''e2'', ''e4''), (''e2'', ''e5''), (''e7'', ''e5'')] newChessGame = 2 \<and>
   length (moveHistory (play [(''e2'', ''e4''), (''e2'', ''e5''), (''e7'', ''e5'')] newChessGame)) = 2 \<and>
   currentPlayer (play [(''e2'', ''e4''), (''e2'', ''e5''), (''e7'', ''e5'')] newChessGame) = White"
proof -
  have m: "makeMove ''e2'' ''e4'' newChessGame = (True, afterE4)" by code_simp
  have s: "successes [(''e2'', ''e4''), (''e2'', ''e5''), (''e7'', ''e5'')] newChessGame = 2"
    by code_simp
  have h: "length (moveHistory newChessGame) = 0" "currentPlayer newChessGame = White"
    by (simp_all add: newChessGame_def)
  show ?thesis
    using makeMove_flips_and_records [of "''e2''" "''e4''" newChessGame afterE4
        "[(''e2'', ''e4''), (''e2'', ''e5''), (''e7'', ''e5'')]"] m s h
    by (simp add: otherPlayer_def del: play.simps successes.simps)
qed

section \<open>The opening scenario\<close>

text \<open>
  Claim C8. From a fresh game, \<open>makeMove "e2" "e4"\<close> returns true and records
  \<open>e4\<close>; then \<open>makeMove "e7" "e5"\<close> returns true and records \<open>e5\<close>; then
  \<open>makeMove "g1" "f3"\<close> returns true and records \<open>Nf3\<close>, with no disambiguator:
  the b1 knight cannot reach f3 and the ambiguity resolver finds nothing.
\<close>

theorem opening_scenario:
  "makeMove ''e2'' ''e4'' newChessGame = (True, afterE4) \<and>
   getLastMoveNotation afterE4 = ''e4'' \<and>
   makeMove ''e7'' ''e5'' afterE4 = (True, afterE4E5) \<and>
   getLastMoveNotation afterE4E5 = ''e5'' \<and>
   makeMove ''g1'' ''f3'' afterE4E5 = (True, afterE4E5Nf3) \<and>
   getLastMoveNotation afterE4E5Nf3 = ''Nf3'' \<and>
   getPiece afterE4E5 ''b1'' = Some (White, Knight) \<and>
   ''f3'' \<notin> set (getValidMoves afterE4E5 ''b1'') \<and>
   findAmbiguousMoves afterE4E5 ''g1'' ''f3'' (Some (White, Knight)) = []"
  by code_simp

section \<open>The moved piece keeps its identity\<close>

lemma validMove_not_origin: "to \<in> set (getValidMoves g from) \<Longrightarrow> to \<noteq> from"
  by (auto simp: getValidMoves_def canMoveTo_def split: option.splits if_splits)

lemma propertyOf_moved:
  "to \<noteq> from \<Longrightarrow> propertyOf (AList.delete from (AList.update to v pos)) to = v"
  by (simp add: propertyOf_def delete_conv' update_conv')

lemma makeMove_moved_piece:
  assumes "makeMove from to g = (True, g')"
  shows "getPiece g' to = getPiece g from" and "getPiece g from \<noteq> None"
  using makeMove_cases [of "from" "to" g] assms
  by (auto simp: getPiece_def propertyOf_moved dest: validMove_not_origin)

lemma makeMove_pawn_notation:
  assumes "makeMove from to g = (True, g')" and "getPiece g from = Some (c, Pawn)"
  shows "getLastMoveNotation g' = to \<or> getLastMoveNotation g' = showChar (fileOf from) @ ''x'' @ to"
proof -
  from makeMove_cases [of "from" "to" g] assms obtain pos nota where
    n: "\<not> isCastlingShift Pawn from to \<longrightarrow>
          nota = generateMoveNotation g from to (Some (c, Pawn)) (getPiece g to)"
    and h: "moveHistory g' = moveHistory g @
          [\<lparr>from_sq = from, to_sq = to, piece = Some (c, Pawn), captured = getPiece g to,
            notationStr = nota\<rparr>]"
    by auto
  have "nota = to \<or> nota = showChar (fileOf from) @ ''x'' @ to"
    using n by (simp add: isCastlingShift_def generateMoveNotation_def)
  then show ?thesis
    using getLastMoveNotation_snoc [OF h] by simp
qed

text \<open>
  Claim C10. After a successful \<open>makeMove\<close> the destination holds the piece that stood
  on the origin, colour and type unchanged. In particular a pawn stays a pawn wherever it
  arrives, and its notation is the bare destination or origin file, \<open>x\<close> and
  destination, with nothing after the destination square. The instance below moves a white
  pawn from a7 onto b8.
\<close>

theorem makeMove_keeps_piece_identity:
  assumes "makeMove from to g = (True, g')"
  shows "getPiece g from \<noteq> None \<and> getPiece g' to = getPiece g from \<and>
         (\<forall>c. getPiece g from = Some (c, Pawn) \<longrightarrow>
            getPiece g' to = Some (c, Pawn) \<and>
            (getLastMoveNotation g' = to \<or>
             getLastMoveNotation g' = showChar (fileOf from) @ ''x'' @ to))"
  using makeMove_moved_piece [OF assms] makeMove_pawn_notation [OF assms] by auto

theorem makeMove_keeps_piece_identity_witness:
  "makeMove ''a7'' ''b8'' pawnOnA7Game = (True, snd (makeMove ''a7'' ''b8'' pawnOnA7Game)) \<and>
   getPiece pawnOnA7Game ''a7'' = Some (White, Pawn) \<and>
   getPiece pawnOnA7Game ''b8'' = Some (Black, Knight) \<and>
   getPiece (snd (makeMove ''a7'' ''b8'' pawnOnA7Game)) ''b8'' = Some (White, Pawn) \<and>
   getLastMoveNotation (snd (makeMove ''a7'' ''b8'' pawnOnA7Game)) = ''axb8''"
proof -
  have m: "makeMove ''a7'' ''b8'' pawnOnA7Game = (True, snd (makeMove ''a7'' ''b8'' pawnOnA7Game))"
    by code_simp
  have p: "getPiece pawnOnA7Game ''a7'' = Some (White, Pawn)"
    "getPiece pawnOnA7Game ''b8'' = Some (Black, Knight)" by code_simp+
  have n: "getLastMoveNotation (snd (makeMove ''a7'' ''b8'' pawnOnA7Game)) = ''axb8''"
    by code_simp
  show ?thesis
    using makeMove_keeps_piece_identity [OF m] m p n by simp
qed

section \<open>Disambiguation\<close>

text \<open>
  Claim C6, as stated, fails in its example: with White knights on b1 and d2 (after
  1.d4 a6 2.Nf3 a5 3.Nfd2 a4) the d2 knight cannot reach c3, and moving the b1 knight to
  c3 records \<open>Nc3\<close>, not \<open>Nbc3\<close>.
\<close>

theorem knights_b1_d2_counterexample:
  "getPiece knightsB1D2 ''b1'' = Some (White, Knight) \<and>
   getPiece knightsB1D2 ''d2'' = Some (White, Knight) \<and>
   currentPlayer knightsB1D2 = White \<and>
   ''c3'' \<in> set (getValidMoves knightsB1D2 ''b1'') \<and>
   ''c3'' \<notin> set (getValidMoves knightsB1D2 ''d2'') \<and>
   fst (makeMove ''b1'' ''c3'' knightsB1D2) = True \<and>
   getLastMoveNotation (snd (makeMove ''b1'' ''c3'' knightsB1D2)) = ''Nc3'' \<and>
   getLastMoveNotation (snd (makeMove ''b1'' ''c3'' knightsB1D2)) \<noteq> ''Nbc3''"
  by code_simp

lemma getPiece_in_keys: "getPiece g sq = Some p \<Longrightarrow> sq \<in> fst ` set (position g)"
  by (auto simp: getPiece_def propertyOf_def split: option.splits dest: map_of_SomeD intro: rev_image_eqI)

lemma findAmbiguousMoves_set:
  "set (findAmbiguousMoves g from to (Some p)) =
     {sq. sq \<noteq> from \<and> getPiece g sq = Some p \<and> to \<in> set (getValidMoves g sq)}"
proof -
  have "sq \<in> set (findAmbiguousMoves g from to (Some p)) \<longleftrightarrow>
        sq \<noteq> from \<and> getPiece g sq = Some p \<and> to \<in> set (getValidMoves g sq)" for sq
    using getPiece_in_keys [of g sq p]
    by (auto simp: findAmbiguousMoves_def getPiece_def prod_eq_iff split: option.splits)
  then show ?thesis by blast
qed

lemma generateMoveNotation_piece:
  assumes "snd p \<noteq> Pawn"
  shows "generateMoveNotation g from to (Some p) capt =
     typeLetter (snd p) #
       (if findAmbiguousMoves g from to (Some p) = [] then ''''
        else if \<forall>a \<in> set (findAmbiguousMoves g from to (Some p)). fileOf a \<noteq> fileOf from
          then showChar (fileOf from)
        else if \<forall>a \<in> set (findAmbiguousMoves g from to (Some p)). rankOf a \<noteq> rankOf from
          then showChar (rankOf from)
        else from) @
       (if capt = None then '''' else ''x'') @ to"
  using assms by (simp add: generateMoveNotation_def Let_def)

lemma knight_d2_moves:
  "getKnightMoves ''d2'' = [''b1'', ''b3'', ''c4'', ''e4'', ''f1'', ''f3'']"
  by code_simp

lemma knight_d2_not_c3:
  "getPiece g ''d2'' = Some (c, Knight) \<Longrightarrow> ''c3'' \<notin> set (getValidMoves g ''d2'')"
  by (simp add: getValidMoves_def knight_d2_moves)

text \<open>
  Claim C6, amended. For a piece other than a pawn, the ambiguity resolver returns exactly
  the squares other than the origin that hold the same piece and have the destination among
  their valid moves; when it returns any, the notation carries the origin file if none of
  them shares that file, else the origin rank if none shares that rank, else the whole
  origin square. A knight on d2 never has c3 among its valid moves. With White knights on
  b1 and e2 (after 1.e4 a6 2.Ne2 a5), both able to reach c3, moving the b1 knight to c3
  records \<open>Nbc3\<close>.
\<close>

theorem disambiguation_rule:
  "(snd p \<noteq> Pawn \<longrightarrow>
      set (findAmbiguousMoves g from to (Some p)) =
        {sq. sq \<noteq> from \<and> getPiece g sq = Some p \<and> to \<in> set (getValidMoves g sq)} \<and>
      generateMoveNotation g from to (Some p) capt =
        typeLetter (snd p) #
          (if findAmbiguousMoves g from to (Some p) = [] then ''''
           else if \<forall>a \<in> set (findAmbiguousMoves g from to (Some p)). fileOf a \<noteq> fileOf from
             then showChar (fileOf from)
           else if \<forall>a \<in> set (findAmbiguousMoves g from to (Some p)). rankOf a \<noteq> rankOf from
             then showChar (rankOf from)
           else from) @
          (if capt = None then '''' else ''x'') @ to) \<and>
   (getPiece g ''d2'' = Some (c, Knight) \<longrightarrow> ''c3'' \<notin> set (getValidMoves g ''d2'')) \<and>
   getPiece knightsB1E2 ''b1'' = Some (White, Knight) \<and>
   getPiece knightsB1E2 ''e2'' = Some (White, Knight) \<and>
   ''c3'' \<in> set (getValidMoves knightsB1E2 ''b1'') \<and>
   ''c3'' \<in> set (getValidMoves knightsB1E2 ''e2'') \<and>
   fst (makeMove ''b1'' ''c3'' knightsB1E2) = True \<and>
   getLastMoveNotation (snd (makeMove ''b1'' ''c3'' knightsB1E2)) = ''Nbc3''"
proof -
  have "getPiece knightsB1E2 ''b1'' = Some (White, Knight) \<and>
   getPiece knightsB1E2 ''e2'' = Some (White, Knight) \<and>
   ''c3'' \<in> set (getValidMoves knightsB1E2 ''b1'') \<and>
   ''c3'' \<in> set (getValidMoves knightsB1E2 ''e2'') \<and>
   fst (makeMove ''b1'' ''c3'' knightsB1E2) = True \<and>
   getLastMoveNotation (snd (makeMove ''b1'' ''c3'' knightsB1E2)) = ''Nbc3''"
    by code_simp
  then show ?thesis
    using findAmbiguousMoves_set [of g "from" "to" p] generateMoveNotation_piece [of p g "from" "to" capt]
      knight_d2_not_c3 [of g c]
    by blast
qed

theorem disambiguation_rule_witness:
  "snd (White, Knight) \<noteq> Pawn \<and>
   findAmbiguousMoves knightsB1E2 ''b1'' ''c3'' (Some (White, Knight)) = [''e2''] \<and>
   generateMoveNotation knightsB1E2 ''b1'' ''c3'' (Some (White, Knight)) None = ''Nbc3'' \<and>
   getPiece knightsB1D2 ''d2'' = Some (White, Knight) \<and>
   ''c3'' \<notin> set (getValidMoves knightsB1D2 ''d2'')"
proof -
  have a: "findAmbiguousMoves knightsB1E2 ''b1'' ''c3'' (Some (White, Knight)) = [''e2'']"
    by code_simp
  have d: "getPiece knightsB1D2 ''d2'' = Some (White, Knight)" by code_simp
  have f: "fileOf ''e2'' \<noteq> fileOf ''b1''" "typeLetter Knight = CHR ''N''" "showChar (fileOf ''b1'') = ''b''"
    by (simp_all add: fileOf_def typeLetter_def showChar_def)
  have "generateMoveNotation knightsB1E2 ''b1'' ''c3'' (Some (White, Knight)) None = ''Nbc3''"
    using disambiguation_rule [of "(White, Knight)" knightsB1E2 "''b1''" "''c3''" None White] a f
    by simp
  moreover have "''c3'' \<notin> set (getValidMoves knightsB1D2 ''d2'')"
    using disambiguation_rule [of "(White, Knight)" knightsB1D2 "''b1''" "''c3''" None White] d
    by blast
  ultimately show ?thesis using a d by simp
qed

section \<open>The castling branch and the frame of a move\<close>

lemma validKeys_new: "validKeys newChessGame"
  by code_simp

lemma validKeys_getPiece: "validKeys g \<Longrightarrow> getPiece g sq = Some p \<Longrightarrow> isValidSquare sq"
  using getPiece_in_keys [of g sq p] by (auto simp: validKeys_def list_all_iff)

lemma validMove_isValidSquare: "to \<in> set (getValidMoves g from) \<Longrightarrow> isValidSquare to"
  by (auto simp: getValidMoves_def split: option.splits if_splits)

lemma offsetSquare_file:
  assumes "s \<in> set (offsetSquare fi ri d)"
  shows "0 \<le> fi + fst d \<and> fi + fst d < 8 \<and>
         charCodeAt0 s = Some (of_char (fileChar (fi + fst d)))"
  using assms
  by (simp add: offsetSquare_def inBounds_def charCodeAt0_def Let_def split: if_splits)

lemma kingMoves_offsets:
  assumes "to \<in> set (getKingMoves sq)"
  shows "\<exists>dx dy. - 1 \<le> dx \<and> dx \<le> 1 \<and>
           to \<in> set (offsetSquare (fileIndexOf (fileOf sq)) (rankIndexOf (rankOf sq)) (dx, dy))"
proof -
  from assms obtain dx dy :: int where d: "dx \<in> {- 1, 0, 1}"
    and o: "to \<in> set (offsetSquare (fileIndexOf (fileOf sq)) (rankIndexOf (rankOf sq)) (dx, dy))"
    unfolding getKingMoves_def Let_def by (auto split: if_splits)
  from d have "- 1 \<le> dx \<and> dx \<le> 1" by auto
  with o show ?thesis by blast
qed

lemma kingMove_file:
  assumes "to \<in> set (getKingMoves sq)"
  shows "\<exists>dx. - 1 \<le> dx \<and> dx \<le> 1 \<and> 0 \<le> fileIndexOf (fileOf sq) + dx \<and>
              fileIndexOf (fileOf sq) + dx < 8 \<and>
              charCodeAt0 to = Some (of_char (fileChar (fileIndexOf (fileOf sq) + dx)))"
  using kingMoves_offsets [OF assms] offsetSquare_file by fastforce

lemma fileChar_code: "0 \<le> i \<Longrightarrow> i < 8 \<Longrightarrow> (of_char (fileChar i) :: int) = 97 + i"
proof -
  assume "0 \<le> i" "i < 8"
  then have "i = 0 \<or> i = 1 \<or> i = 2 \<or> i = 3 \<or> i = 4 \<or> i = 5 \<or> i = 6 \<or> i = 7" by arith
  then show ?thesis by (auto simp: fileChar_def)
qed

lemma file_cases:
  assumes "f \<in> set ''abcdefgh''"
  obtains "f = CHR ''a''" | "f = CHR ''b''" | "f = CHR ''c''" | "f = CHR ''d''"
    | "f = CHR ''e''" | "f = CHR ''f''" | "f = CHR ''g''" | "f = CHR ''h''"
  using assms by fastforce

lemma rank_cases:
  assumes "r \<in> set ''12345678''"
  obtains "r = CHR ''1''" | "r = CHR ''2''" | "r = CHR ''3''" | "r = CHR ''4''"
    | "r = CHR ''5''" | "r = CHR ''6''" | "r = CHR ''7''" | "r = CHR ''8''"
  using assms by fastforce

lemma file_code: "f \<in> set ''abcdefgh'' \<Longrightarrow> (of_char f :: int) = 97 + fileIndexOf (Some f)"
  by (erule file_cases) (simp_all add: fileIndexOf_def)

lemma isValidSquare_iff:
  "isValidSquare sq \<longleftrightarrow> (\<exists>f r. sq = [f, r] \<and> f \<in> set ''abcdefgh'' \<and> r \<in> set ''12345678'')"
  by (auto simp: isValidSquare_def split: list.splits)

lemma kingMove_not_castling:
  assumes "isValidSquare from" and "to \<in> set (getKingMoves from)"
  shows "\<not> isCastlingShift King from to"
proof -
  from assms(1) obtain f r where sq: "from = [f, r]" and f: "f \<in> set ''abcdefgh''"
    unfolding isValidSquare_iff by blast
  from kingMove_file [OF assms(2)] obtain dx where
    dx: "- 1 \<le> dx" "dx \<le> 1" "0 \<le> fileIndexOf (fileOf from) + dx" "fileIndexOf (fileOf from) + dx < 8"
    and c: "charCodeAt0 to = Some (of_char (fileChar (fileIndexOf (fileOf from) + dx)))"
    by blast
  have "charCodeAt0 from = Some (97 + fileIndexOf (fileOf from))"
    using file_code [OF f] by (simp add: sq charCodeAt0_def fileOf_def)
  moreover have "charCodeAt0 to = Some (97 + (fileIndexOf (fileOf from) + dx))"
    using c fileChar_code [OF dx(3,4)] by simp
  ultimately show ?thesis
    using dx(1,2) by (simp add: isCastlingShift_def)
qed

lemma validMove_not_castling:
  assumes "validKeys g" and "getPiece g from = Some pc" and "to \<in> set (getValidMoves g from)"
  shows "\<not> isCastlingShift (snd pc) from to"
proof (cases "snd pc = King")
  case True
  have "to \<in> set (getKingMoves from)"
    using assms(2,3) True by (auto simp: getValidMoves_def split: if_splits)
  with validKeys_getPiece [OF assms(1,2)] True show ?thesis
    by (simp add: kingMove_not_castling)
next
  case False
  then show ?thesis by (simp add: isCastlingShift_def)
qed

text \<open>What a successful move does in a game whose occupied squares are all board squares.\<close>

lemma makeMove_valid_success:
  assumes "validKeys g" and "makeMove from to g = (True, g')"
  shows "\<exists>pc. getPiece g from = Some pc \<and> fst pc = currentPlayer g \<and>
           to \<in> set (getValidMoves g from) \<and>
           g' = \<lparr>position = AList.delete from (AList.update to (Some pc) (position g)),
                 currentPlayer = otherPlayer (currentPlayer g),
                 moveHistory = moveHistory g @
                   [\<lparr>from_sq = from, to_sq = to, piece = Some pc, captured = getPiece g to,
                     notationStr = generateMoveNotation g from to (Some pc) (getPiece g to)\<rparr>]\<rparr>"
proof -
  from assms(2) obtain pc where
    p: "getPiece g from = Some pc" "fst pc = currentPlayer g" "to \<in> set (getValidMoves g from)"
    by (auto simp: makeMove_def split: option.splits if_splits)
  have nc: "\<not> isCastlingShift (snd pc) from to"
    by (rule validMove_not_castling [OF assms(1) p(1) p(3)])
  have "makeMove from to g =
     (True, \<lparr>position = AList.delete from (AList.update to (Some pc) (position g)),
            currentPlayer = otherPlayer (currentPlayer g),
            moveHistory = moveHistory g @
              [\<lparr>from_sq = from, to_sq = to, piece = Some pc, captured = getPiece g to,
                notationStr = generateMoveNotation g from to (Some pc) (getPiece g to)\<rparr>]\<rparr>)"
    using p nc by (simp add: makeMove_def Let_def)
  with assms(2) p show ?thesis by simp
qed

lemma validKeys_makeMove: "validKeys g \<Longrightarrow> validKeys (snd (makeMove from to g))"
proof -
  assume v: "validKeys g"
  show ?thesis
  proof (cases "fst (makeMove from to g)")
    case False
    then show ?thesis using makeMove_cases [of "from" "to" g] v by auto
  next
    case True
    then have "makeMove from to g = (True, snd (makeMove from to g))"
      by (simp add: prod_eq_iff)
    from makeMove_valid_success [OF v this] obtain pc where
      t: "to \<in> set (getValidMoves g from)"
      and g': "snd (makeMove from to g) =
         \<lparr>position = AList.delete from (AList.update to (Some pc) (position g)),
          currentPlayer = otherPlayer (currentPlayer g),
          moveHistory = moveHistory g @
            [\<lparr>from_sq = from, to_sq = to, piece = Some pc, captured = getPiece g to,
              notationStr = generateMoveNotation g from to (Some pc) (getPiece g to)\<rparr>]\<rparr>"
      by blast
    have p: "position (snd (makeMove from to g)) =
               AList.delete from (AList.update to (Some pc) (position g))"
      by (subst g') simp
    have "fst ` set (position (snd (makeMove from to g))) \<subseteq> insert to (fst ` set (position g))"
      unfolding p using dom_delete_subset [of "from" "AList.update to (Some pc) (position g)"]
      by (auto simp: dom_update)
    moreover have "\<forall>k \<in> insert to (fst ` set (position g)). isValidSquare k"
      using v validMove_isValidSquare [OF t] by (auto simp: validKeys_def list_all_iff)
    ultimately have "\<forall>k \<in> fst ` set (position (snd (makeMove from to g))). isValidSquare k"
      by blast
    then show ?thesis
      by (simp add: validKeys_def list_all_iff)
  qed
qed

lemma validKeys_play: "validKeys g \<Longrightarrow> validKeys (play ms g)"
proof (induction ms arbitrary: g)
  case Nil
  then show ?case by simp
next
  case (Cons m ms)
  obtain f t where m: "m = (f, t)" by (cases m)
  show ?case using Cons.IH [OF validKeys_makeMove [OF Cons.prems, of f t]] by (simp add: m)
qed

lemma propertyOf_other:
  "sq \<noteq> from \<Longrightarrow> sq \<noteq> to \<Longrightarrow>
   propertyOf (AList.delete from (AList.update to v pos)) sq = propertyOf pos sq"
  by (simp add: propertyOf_def delete_conv' update_conv')

lemma makeMove_valid_frame:
  assumes "validKeys g" and "makeMove from to g = (True, g')"
    and "square \<noteq> from" and "square \<noteq> to"
  shows "getPiece g' square = getPiece g square"
  using makeMove_valid_success [OF assms(1,2)] assms(3,4)
  by (auto simp: getPiece_def propertyOf_other)

text \<open>
  Claim C9. In every game reached from the constructor by \<open>makeMove\<close> calls, a
  successful \<open>makeMove\<close> leaves the occupant of every square other than origin and
  destination unchanged: the castling branch is not taken, because no valid move of a king
  ends two files away from its origin.
\<close>

theorem makeMove_touches_two_squares:
  assumes "makeMove from to (play ms newChessGame) = (True, g')"
  shows "(\<forall>square. square \<noteq> from \<and> square \<noteq> to \<longrightarrow>
            getPiece g' square = getPiece (play ms newChessGame) square) \<and>
         (\<forall>pc. getPiece (play ms newChessGame) from = Some pc \<longrightarrow>
            \<not> isCastlingShift (snd pc) from to) \<and>
         (\<forall>c dest. getPiece (play ms newChessGame) from = Some (c, King) \<and>
            dest \<in> set (getValidMoves (play ms newChessGame) from) \<longrightarrow>
            \<not> isCastlingShift King from dest)"
proof -
  have v: "validKeys (play ms newChessGame)"
    by (rule validKeys_play [OF validKeys_new])
  from makeMove_valid_success [OF v assms] have t: "to \<in> set (getValidMoves (play ms newChessGame) from)"
    by blast
  show ?thesis
    using makeMove_valid_frame [OF v assms] validMove_not_castling [OF v _ t]
      validMove_not_castling [OF v]
    by fastforce
qed

theorem makeMove_touches_two_squares_witness:
  "makeMove ''e1'' ''e2'' (play [(''e2'', ''e4''), (''e7'', ''e5'')] newChessGame) =
     (True, snd (makeMove ''e1'' ''e2'' (play [(''e2'', ''e4''), (''e7'', ''e5'')] newChessGame))) \<and>
   getPiece (play [(''e2'', ''e4''), (''e7'', ''e5'')] newChessGame) ''e1'' = Some (White, King) \<and>
   getPiece (snd (makeMove ''e1'' ''e2'' (play [(''e2'', ''e4''), (''e7'', ''e5'')] newChessGame))) ''h1'' =
     getPiece (play [(''e2'', ''e4''), (''e7'', ''e5'')] newChessGame) ''h1'' \<and>
   getPiece (play [(''e2'', ''e4''), (''e7'', ''e5'')] newChessGame) ''h1'' = Some (White, Rook) \<and>
   \<not> isCastlingShift King ''e1'' ''e2''"
proof -
  let ?g = "play [(''e2'', ''e4''), (''e7'', ''e5'')] newChessGame"
  have m: "makeMove ''e1'' ''e2'' ?g = (True, snd (makeMove ''e1'' ''e2'' ?g))"
    by code_simp
  have k: "getPiece ?g ''e1'' = Some (White, King)" "getPiece ?g ''h1'' = Some (White, Rook)"
    by code_simp+
  have n: "''h1'' \<noteq> ''e1'' \<and> ''h1'' \<noteq> ''e2''" by simp
  from makeMove_touches_two_squares [OF m] k n show ?thesis
    using m by (auto simp del: play.simps)
qed

section \<open>Clone independence\<close>

lemma makeMoveAt_frame:
  assumes "separate h a b"
  shows "separate (snd (makeMoveAt b from to h)) a b"
    and "gameAt (snd (makeMoveAt b from to h)) a = gameAt h a"
  using assms
  by (auto simp: separate_def makeMoveAt_def gameAt_def Let_def split: prod.splits)

lemma separate_sym: "separate h a b \<Longrightarrow> separate h b a"
  by (auto simp: separate_def)

lemma playAt_frame:
  "separate h a b \<Longrightarrow> gameAt (playAt b ms h) a = gameAt h a"
proof (induction ms arbitrary: h)
  case Nil
  show ?case by simp
next
  case (Cons m ms)
  obtain f t where m: "m = (f, t)" by (cases m)
  show ?case
    using Cons.IH [OF makeMoveAt_frame(1) [OF Cons.prems, of f t]]
      makeMoveAt_frame(2) [OF Cons.prems, of f t]
    by (simp add: m)
qed

lemma clone_separate:
  assumes "allocated h this"
  shows "separate (snd (clone this h)) this (fst (clone this h))"
  using assms
  by (auto simp: allocated_def separate_def clone_def constructGame_def allocPosition_def
      allocHistory_def allocGame_def Let_def)

lemma clone_copy:
  assumes "allocated h this"
  shows "gameAt (snd (clone this h)) (fst (clone this h)) = gameAt h this"
    and "gameAt (snd (clone this h)) this = gameAt h this"
  using assms
  by (auto simp: allocated_def gameAt_def clone_def constructGame_def allocPosition_def
      allocHistory_def allocGame_def Let_def)

lemma makeMoveAt_own:
  "gameAt (snd (makeMoveAt this from to h)) this = snd (makeMove from to (gameAt h this))"
  by (simp add: makeMoveAt_def gameAt_def Let_def split: prod.splits)

lemma playAt_own: "gameAt (playAt this ms h) this = play ms (gameAt h this)"
proof (induction ms arbitrary: h)
  case Nil
  show ?case by simp
next
  case (Cons m ms)
  obtain f t where m: "m = (f, t)" by (cases m)
  show ?case
    using Cons.IH [of "snd (makeMoveAt this f t h)"] makeMoveAt_own [of this f t h]
    by (simp add: m)
qed

text \<open>
  Claim C7. For every allocated game object, \<open>clone\<close> returns an object such that no
  sequence of \<open>makeMove\<close> calls on the clone changes what \<open>getPiece\<close> returns on
  the original for any square, and no sequence of calls on the original changes what
  \<open>getPiece\<close> returns on the clone; each object evolves as a game of its own from the
  position at the time of cloning.
\<close>

theorem clone_independent:
  assumes "allocated h this"
  shows "getPieceAt (playAt (fst (clone this h)) ms (snd (clone this h))) this square =
           getPieceAt h this square \<and>
         getPieceAt (playAt this ms (snd (clone this h))) (fst (clone this h)) square =
           getPieceAt h this square \<and>
         gameAt (playAt (fst (clone this h)) ms (snd (clone this h))) (fst (clone this h)) =
           play ms (gameAt h this) \<and>
         gameAt (playAt this ms (snd (clone this h))) this = play ms (gameAt h this)"
proof -
  let ?c = "fst (clone this h)" and ?h = "snd (clone this h)"
  have s: "separate ?h this ?c" by (rule clone_separate [OF assms])
  have "gameAt (playAt ?c ms ?h) this = gameAt h this"
    using playAt_frame [OF s, of ms] clone_copy(2) [OF assms] by simp
  moreover have "gameAt (playAt this ms ?h) ?c = gameAt h this"
    using playAt_frame [OF separate_sym [OF s], of ms] clone_copy(1) [OF assms] by simp
  moreover have "gameAt (playAt ?c ms ?h) ?c = play ms (gameAt h this)"
    using playAt_own [of ?c ms ?h] clone_copy(1) [OF assms] by simp
  moreover have "gameAt (playAt this ms ?h) this = play ms (gameAt h this)"
    using playAt_own [of this ms ?h] clone_copy(2) [OF assms] by simp
  ultimately show ?thesis by (simp add: getPieceAt_def)
qed

theorem clone_independent_witness:
  "allocated firstHeap firstGame \<and>
   getPieceAt firstHeap firstGame ''e2'' = Some (White, Pawn) \<and>
   getPieceAt (playAt (fst (clone firstGame firstHeap)) [(''e2'', ''e4'')]
      (snd (clone firstGame firstHeap))) firstGame ''e2'' = Some (White, Pawn) \<and>
   getPieceAt (playAt (fst (clone firstGame firstHeap)) [(''e2'', ''e4'')]
      (snd (clone firstGame firstHeap))) (fst (clone firstGame firstHeap)) ''e2'' = None \<and>
   getPieceAt (playAt firstGame [(''e2'', ''e4'')]
      (snd (clone firstGame firstHeap))) (fst (clone firstGame firstHeap)) ''e2'' = Some (White, Pawn) \<and>
   getPieceAt (playAt firstGame [(''e2'', ''e4'')]
      (snd (clone firstGame firstHeap))) firstGame ''e2'' = None"
proof -
  have a: "allocated firstHeap firstGame" by code_simp
  have g: "gameAt firstHeap firstGame = newChessGame" by code_simp
  have p: "getPiece newChessGame ''e2'' = Some (White, Pawn)"
    "getPiece (play [(''e2'', ''e4'')] newChessGame) ''e2'' = None" by code_simp+
  from clone_independent [OF a, of "[(''e2'', ''e4'')]" "''e2''"] a g p show ?thesis
    by (simp add: getPieceAt_def del: playAt.simps play.simps)
qed

section \<open>Notation round trip\<close>

lemma isFileChar_iff: "isFileChar c \<longleftrightarrow> c \<in> set ''abcdefgh''"
  by (simp add: isFileChar_def)

lemma isRankChar_iff: "isRankChar c \<longleftrightarrow> c \<in> set ''12345678''"
  by (simp add: isRankChar_def)

lemma fileChar_classes:
  assumes "c \<in> set ''abcdefgh''"
  shows "\<not> isRankChar c" "\<not> isX c" "\<not> isPieceLetter c" "\<not> isWhiteSpace c" "c \<notin> set ''+#!?''"
    "isFileChar c"
  using assms
  by (erule_tac file_cases; simp add: isRankChar_def isX_def isPieceLetter_def isWhiteSpace_def isFileChar_def)+

lemma rankChar_classes:
  assumes "c \<in> set ''12345678''"
  shows "\<not> isFileChar c" "\<not> isX c" "\<not> isPieceLetter c" "\<not> isWhiteSpace c" "c \<notin> set ''+#!?''"
    "isRankChar c" "c \<noteq> CHR ''O''" "c \<noteq> CHR ''0''"
  using assms
  by (erule_tac rank_cases; simp add: isRankChar_def isX_def isPieceLetter_def isWhiteSpace_def isFileChar_def)+

lemma typeLetter_classes:
  assumes "t \<noteq> Pawn"
  shows "isPieceLetter (typeLetter t)" "\<not> isFileChar (typeLetter t)" "\<not> isWhiteSpace (typeLetter t)"
  using assms
  by (cases t; simp add: typeLetter_def isPieceLetter_def isFileChar_def isWhiteSpace_def)+

lemma typeLetter_inject: "typeLetter s = typeLetter t \<longleftrightarrow> s = t"
  by (cases s; cases t; simp add: typeLetter_def)

lemma typeLetter_P: "typeLetter t = CHR ''P'' \<longleftrightarrow> t = Pawn"
  by (cases t; simp add: typeLetter_def)

lemma colorLetter_inject: "colorLetter c = colorLetter d \<longleftrightarrow> c = d"
  by (cases c; cases d; simp add: colorLetter_def)

lemma pieceCode_eq: "pieceCode p = [colorLetter c, typeLetter t] \<longleftrightarrow> p = (c, t)"
  by (cases p) (simp add: pieceCode_def colorLetter_inject typeLetter_inject)

lemma pieceCode_pawn: "pieceCode p = [colorLetter c, CHR ''P''] \<longleftrightarrow> p = (c, Pawn)"
  using pieceCode_eq [of p c Pawn] by (simp add: typeLetter_def)

text \<open>A notation that starts with no white space and ends in a rank digit is parsed as it is.\<close>

lemma stripGlyphs_rank_end:
  "r \<in> set ''12345678'' \<Longrightarrow> stripGlyphs (xs @ [r]) = xs @ [r]"
  using rankChar_classes(5) [of r] by (simp add: stripGlyphs_def)

lemma trim_clean:
  "\<not> isWhiteSpace x \<Longrightarrow> \<not> isWhiteSpace r \<Longrightarrow> trim (x # xs @ [r]) = x # xs @ [r]"
  by (simp add: trim_def)

lemma parse_clean:
  assumes "\<not> isWhiteSpace x" and "r \<in> set ''12345678''"
  shows "parseAlgebraicNotation g (x # xs @ [r]) =
     (case notationPattern (x # xs @ [r]) of
        None \<Rightarrow> None
      | Some (pieceType, fromFile, fromRank, isCapture, toSquare) \<Rightarrow>
          (case findCandidatePieces g pieceType toSquare fromFile fromRank isCapture of
             [] \<Rightarrow> None
           | candidate # _ \<Rightarrow> Some (candidate, toSquare)))"
proof -
  define n where "n = x # xs @ [r]"
  have s: "stripGlyphs n = n"
    using stripGlyphs_rank_end [OF assms(2), of "x # xs"] by (simp add: n_def)
  have t: "trim n = n"
    using trim_clean [OF assms(1) rankChar_classes(4) [OF assms(2)]] by (simp add: n_def)
  have l: "last n = r" by (simp add: n_def)
  have "last n \<noteq> CHR ''O''" "last n \<noteq> CHR ''0''"
    using rankChar_classes(7,8) [OF assms(2)] by (simp_all add: l)
  then have c: "\<not> (n = ''O-O'' \<or> n = ''0-0'')" "\<not> (n = ''O-O-O'' \<or> n = ''0-0-0'')"
    by auto
  have "parseAlgebraicNotation g n =
     (case notationPattern n of
        None \<Rightarrow> None
      | Some (pieceType, fromFile, fromRank, isCapture, toSquare) \<Rightarrow>
          (case findCandidatePieces g pieceType toSquare fromFile fromRank isCapture of
             [] \<Rightarrow> None
           | candidate # _ \<Rightarrow> Some (candidate, toSquare)))"
    unfolding parseAlgebraicNotation_def Let_def s t by (simp only: c if_False)
  then show ?thesis by (simp only: n_def)
qed

lemma pattern_pawn_quiet:
  assumes "f \<in> set ''abcdefgh''" "r \<in> set ''12345678''"
  shows "notationPattern [f, r] = Some (CHR ''P'', None, None, False, [f, r])"
  using assms by (simp add: notationPattern_def matches_def isFileChar_iff isRankChar_iff)

lemma pattern_pawn_capture:
  assumes "q \<in> set ''abcdefgh''" "f \<in> set ''abcdefgh''" "r \<in> set ''12345678''"
  shows "notationPattern [q, CHR ''x'', f, r] = Some (CHR ''P'', Some q, None, True, [f, r])"
  using assms by (simp add: notationPattern_def matches_def isFileChar_iff isRankChar_iff isX_def)

lemma pattern_piece:
  assumes "t \<noteq> Pawn" "f \<in> set ''abcdefgh''" "r \<in> set ''12345678''"
  shows "notationPattern [typeLetter t, f, r] = Some (typeLetter t, None, None, False, [f, r])"
  using assms typeLetter_classes [OF assms(1)] fileChar_classes [OF assms(2)] rankChar_classes [OF assms(3)]
  by (simp add: notationPattern_def matches_def)

lemma pattern_piece_capture:
  assumes "t \<noteq> Pawn" "f \<in> set ''abcdefgh''" "r \<in> set ''12345678''"
  shows "notationPattern [typeLetter t, CHR ''x'', f, r] = Some (typeLetter t, None, None, True, [f, r])"
  using assms typeLetter_classes [OF assms(1)] fileChar_classes [OF assms(2)] rankChar_classes [OF assms(3)]
  by (simp add: notationPattern_def matches_def isX_def)

lemma pattern_piece_file:
  assumes "t \<noteq> Pawn" "q \<in> set ''abcdefgh''" "f \<in> set ''abcdefgh''" "r \<in> set ''12345678''"
  shows "notationPattern [typeLetter t, q, f, r] = Some (typeLetter t, Some q, None, False, [f, r])"
  using assms typeLetter_classes [OF assms(1)] fileChar_classes [OF assms(2)]
    fileChar_classes [OF assms(3)] rankChar_classes [OF assms(4)]
  by (simp add: notationPattern_def matches_def)

lemma pattern_piece_rank:
  assumes "t \<noteq> Pawn" "q \<in> set ''12345678''" "f \<in> set ''abcdefgh''" "r \<in> set ''12345678''"
  shows "notationPattern [typeLetter t, q, f, r] = Some (typeLetter t, None, Some q, False, [f, r])"
  using assms typeLetter_classes [OF assms(1)] rankChar_classes [OF assms(2)]
    fileChar_classes [OF assms(3)] rankChar_classes [OF assms(4)]
  by (simp add: notationPattern_def matches_def)

lemma pattern_piece_file_capture:
  assumes "t \<noteq> Pawn" "q \<in> set ''abcdefgh''" "f \<in> set ''abcdefgh''" "r \<in> set ''12345678''"
  shows "notationPattern [typeLetter t, q, CHR ''x'', f, r] =
           Some (typeLetter t, Some q, None, True, [f, r])"
  using assms typeLetter_classes [OF assms(1)] fileChar_classes [OF assms(2)]
    fileChar_classes [OF assms(3)] rankChar_classes [OF assms(4)]
  by (simp add: notationPattern_def matches_def isX_def)

lemma pattern_piece_rank_capture:
  assumes "t \<noteq> Pawn" "q \<in> set ''12345678''" "f \<in> set ''abcdefgh''" "r \<in> set ''12345678''"
  shows "notationPattern [typeLetter t, q, CHR ''x'', f, r] =
           Some (typeLetter t, None, Some q, True, [f, r])"
  using assms typeLetter_classes [OF assms(1)] rankChar_classes [OF assms(2)]
    fileChar_classes [OF assms(3)] rankChar_classes [OF assms(4)]
  by (simp add: notationPattern_def matches_def isX_def)

lemma makeMove_getPiece:
  assumes "validKeys g" and "makeMove from to g = (True, g')"
  shows "getPiece g' sq = (if sq = to then getPiece g from else if sq = from then None else getPiece g sq)"
proof -
  from makeMove_valid_success [OF assms] obtain pc where
    p: "getPiece g from = Some pc" and t: "to \<in> set (getValidMoves g from)"
    and g': "position g' = AList.delete from (AList.update to (Some pc) (position g))"
    by auto
  have "to \<noteq> from" by (rule validMove_not_origin [OF t])
  then show ?thesis
    by (simp add: getPiece_def g' propertyOf_def delete_conv' update_conv' p [unfolded getPiece_def propertyOf_def])
qed

lemma pieceSquares_keys: "pieceSquares g p \<subseteq> fst ` set (position g)"
  unfolding pieceSquares_def using getPiece_in_keys by blast

lemma pieceSquares_finite: "finite (pieceSquares g p)"
  by (rule finite_subset [OF pieceSquares_keys]) simp

lemma pieceSquares_filter:
  "pieceSquares g p = set (filter (\<lambda>sq. getPiece g sq = Some p) (map fst (position g)))"
  using pieceSquares_keys [of g p] by (auto simp: pieceSquares_def)

lemma initial_counts:
  "list_all (\<lambda>p. length (filter (\<lambda>sq. getPiece newChessGame sq = Some p)
                 (map fst (position newChessGame))) \<le> 2)
     [(White, King), (White, Queen), (White, Rook), (White, Bishop), (White, Knight),
      (Black, King), (Black, Queen), (Black, Rook), (Black, Bishop), (Black, Knight)]"
  by code_simp

lemma pieceSquares_new: "snd p \<noteq> Pawn \<Longrightarrow> card (pieceSquares newChessGame p) \<le> 2"
proof -
  assume a: "snd p \<noteq> Pawn"
  obtain c t where p: "p = (c, t)" by (cases p)
  have "p \<in> set [(White, King), (White, Queen), (White, Rook), (White, Bishop), (White, Knight),
      (Black, King), (Black, Queen), (Black, Rook), (Black, Bishop), (Black, Knight)]"
    using a unfolding p by (cases c; cases t) simp_all
  with initial_counts have "length (filter (\<lambda>sq. getPiece newChessGame sq = Some p)
          (map fst (position newChessGame))) \<le> 2"
    unfolding list_all_iff by blast
  then show ?thesis
    using card_length [of "filter (\<lambda>sq. getPiece newChessGame sq = Some p)
          (map fst (position newChessGame))"]
    by (simp only: pieceSquares_filter)
qed

lemma pieceSquares_makeMove:
  assumes "validKeys g" and "makeMove from to g = (True, g')" and "getPiece g from = Some pc"
  shows "pieceSquares g' p \<subseteq> (if p = pc then insert to (pieceSquares g p - {from}) else pieceSquares g p)"
  using makeMove_getPiece [OF assms(1,2)] assms(3)
  by (auto simp: pieceSquares_def split: if_splits)

lemma card_replace:
  assumes "finite S" and "x \<in> S"
  shows "card (insert y (S - {x})) \<le> card S"
proof -
  have "card (insert y (S - {x})) \<le> Suc (card (S - {x}))"
    by (rule card_insert_le_m1) (use assms in auto)
  also have "\<dots> = card S"
    using assms by (simp add: card_Suc_Diff1 del: card_Diff_insert)
  finally show ?thesis .
qed

lemma gameInvariant_new: "gameInvariant newChessGame"
proof -
  have "distinct (map fst (position newChessGame))" by code_simp
  then show ?thesis
    using validKeys_new pieceSquares_new by (simp add: gameInvariant_def)
qed

lemma gameInvariant_makeMove:
  assumes "gameInvariant g"
  shows "gameInvariant (snd (makeMove from to g))"
proof (cases "fst (makeMove from to g)")
  case False
  then show ?thesis using makeMove_cases [of "from" "to" g] assms by auto
next
  case True
  let ?g = "snd (makeMove from to g)"
  have v: "validKeys g" using assms by (simp add: gameInvariant_def)
  have m: "makeMove from to g = (True, ?g)" using True by (simp add: prod_eq_iff)
  from makeMove_valid_success [OF v m] obtain pc where
    p: "getPiece g from = Some pc"
    and g': "position ?g = AList.delete from (AList.update to (Some pc) (position g))"
    by auto
  have d: "distinct (map fst (position ?g))"
    unfolding g' using assms by (simp add: gameInvariant_def distinct_delete distinct_update)
  have c: "card (pieceSquares ?g q) \<le> 2" if q: "snd q \<noteq> Pawn" for q
  proof -
    have old: "card (pieceSquares g q) \<le> 2" using assms q unfolding gameInvariant_def by blast
    have sub: "pieceSquares ?g q \<subseteq>
        (if q = pc then insert to (pieceSquares g q - {from}) else pieceSquares g q)"
      by (rule pieceSquares_makeMove [OF v m p])
    show ?thesis
    proof (cases "q = pc")
      case True
      have "from \<in> pieceSquares g q" using p True by (simp add: pieceSquares_def)
      then have "card (insert to (pieceSquares g q - {from})) \<le> card (pieceSquares g q)"
        by (rule card_replace [OF pieceSquares_finite])
      moreover have "card (pieceSquares ?g q) \<le> card (insert to (pieceSquares g q - {from}))"
        using sub True by (intro card_mono) (simp_all add: pieceSquares_finite)
      ultimately show ?thesis using old by linarith
    next
      case False
      then have "card (pieceSquares ?g q) \<le> card (pieceSquares g q)"
        using sub by (intro card_mono) (simp_all add: pieceSquares_finite)
      then show ?thesis using old by linarith
    qed
  qed
  show ?thesis
    using validKeys_makeMove [OF v, of "from" "to"] d c by (simp add: gameInvariant_def)
qed

lemma gameInvariant_play: "gameInvariant g \<Longrightarrow> gameInvariant (play ms g)"
proof (induction ms arbitrary: g)
  case Nil
  then show ?case by simp
next
  case (Cons m ms)
  obtain f t where m: "m = (f, t)" by (cases m)
  show ?case using Cons.IH [OF gameInvariant_makeMove [OF Cons.prems, of f t]] by (simp add: m)
qed

text \<open>With at most two pieces of a kind, the pieces the resolver finds are all on one square.\<close>

lemma ambiguous_unique:
  assumes "gameInvariant g" and "snd p \<noteq> Pawn" and "getPiece g from = Some p"
    and "a \<in> set (findAmbiguousMoves g from to (Some p))"
    and "b \<in> set (findAmbiguousMoves g from to (Some p))"
  shows "a = b"
proof -
  have c: "card (pieceSquares g p) \<le> 2" using assms(1,2) unfolding gameInvariant_def by blast
  have "a \<in> pieceSquares g p" "b \<in> pieceSquares g p" "from \<in> pieceSquares g p" "a \<noteq> from" "b \<noteq> from"
    using assms(3,4,5) by (simp_all add: findAmbiguousMoves_set pieceSquares_def)
  then have "{a, b, from} \<subseteq> pieceSquares g p" by simp
  then have "card {a, b, from} \<le> 2"
    using c card_mono [OF pieceSquares_finite, of "{a, b, from}" g p] by linarith
  then show ?thesis using \<open>a \<noteq> from\<close> \<open>b \<noteq> from\<close>
    by (cases "a = b") simp_all
qed

lemma digit_cases:
  assumes "0 \<le> k" and "k < (10 :: int)"
  obtains "k = 0" | "k = 1" | "k = 2" | "k = 3" | "k = 4" | "k = 5" | "k = 6" | "k = 7"
    | "k = 8" | "k = 9"
proof -
  from assms have "k = 0 \<or> k = 1 \<or> k = 2 \<or> k = 3 \<or> k = 4 \<or> k = 5 \<or> k = 6 \<or> k = 7 \<or>
    k = 8 \<or> k = 9" by arith
  then show ?thesis using that by blast
qed

lemma showNumber_digit: "0 \<le> k \<Longrightarrow> k < 10 \<Longrightarrow> showNumber (Some k) = [digitChar (nat k)]"
proof -
  assume "0 \<le> k" "k < 10"
  then have "nat k < 10" by linarith
  then have "showNat (nat k) = [digitChar (nat k)]"
    by (subst showNat.simps) simp
  then show ?thesis
    using \<open>0 \<le> k\<close> by (simp add: showNumber_def showInt_def)
qed

lemma digit_rankIndex:
  "0 \<le> k \<Longrightarrow> k < 10 \<Longrightarrow> rankIndexOf (Some (digitChar (nat k))) = Some (k - 1)"
  by (erule (1) digit_cases) (simp_all add: rankIndexOf_def parseInt_def digitChar_def)

lemma digit_is_rank:
  "0 \<le> k \<Longrightarrow> k < 10 \<Longrightarrow> digitChar (nat k) \<in> set ''12345678'' \<longleftrightarrow> 1 \<le> k \<and> k \<le> 8"
  by (erule (1) digit_cases) (simp_all add: digitChar_def)

lemma digit_inject:
  assumes "0 \<le> k" "k < 10" "0 \<le> l" "l < 10" "digitChar (nat k) = digitChar (nat l)"
  shows "k = l"
proof -
  have "rankIndexOf (Some (digitChar (nat k))) = rankIndexOf (Some (digitChar (nat l)))"
    using assms(5) by simp
  then show ?thesis
    using digit_rankIndex [OF assms(1,2)] digit_rankIndex [OF assms(3,4)] by simp
qed

lemma rank_is_digit:
  assumes "r \<in> set ''12345678''"
  obtains i where "0 \<le> i" "i \<le> 7" "r = digitChar (nat (i + 1))"
proof -
  from assms have "\<exists>i::int. 0 \<le> i \<and> i \<le> 7 \<and> r = digitChar (nat (i + 1))"
  proof (cases rule: rank_cases)
    case 1 then show ?thesis by (intro exI [of _ 0]) (simp add: digitChar_def)
  next
    case 2 then show ?thesis by (intro exI [of _ 1]) (simp add: digitChar_def)
  next
    case 3 then show ?thesis by (intro exI [of _ 2]) (simp add: digitChar_def)
  next
    case 4 then show ?thesis by (intro exI [of _ 3]) (simp add: digitChar_def)
  next
    case 5 then show ?thesis by (intro exI [of _ 4]) (simp add: digitChar_def)
  next
    case 6 then show ?thesis by (intro exI [of _ 5]) (simp add: digitChar_def)
  next
    case 7 then show ?thesis by (intro exI [of _ 6]) (simp add: digitChar_def)
  next
    case 8 then show ?thesis by (intro exI [of _ 7]) (simp add: digitChar_def)
  qed
  then show ?thesis using that by blast
qed

lemma square_coordinates:
  assumes "isValidSquare sq"
  obtains f i where "f \<in> set ''abcdefgh''" "0 \<le> i" "i \<le> 7" "sq = [f, digitChar (nat (i + 1))]"
proof -
  from assms obtain f r where sq: "sq = [f, r]" and f: "f \<in> set ''abcdefgh''"
    and r: "r \<in> set ''12345678''"
    unfolding isValidSquare_iff by blast
  from rank_is_digit [OF r] obtain i where "0 \<le> i" "i \<le> 7" "r = digitChar (nat (i + 1))"
    by blast
  with sq f show ?thesis using that by blast
qed

lemma valid_digit_square:
  "0 \<le> k \<Longrightarrow> k < 10 \<Longrightarrow>
   isValidSquare [f, digitChar (nat k)] \<longleftrightarrow> f \<in> set ''abcdefgh'' \<and> 1 \<le> k \<and> k \<le> 8"
  using digit_is_rank [of k] by (simp add: isValidSquare_def)

lemma pawnCapture_member:
  assumes m: "x \<in> set (pawnCapture g c fi (Some i) d k)" and "0 \<le> i + 1 + d" and "i + 1 + d < 10"
  shows "\<exists>f'. x = [f', digitChar (nat (i + 1 + d))] \<and> getPiece g x \<noteq> None"
proof -
  define s where "s = [fileChar (fi + k), digitChar (nat (i + 1 + d))]"
  have eq: "pawnCapture g c fi (Some i) d k =
     (if 0 \<le> fi + k \<and> fi + k < 8 then
        if isValidSquare s then
          (case getPiece g s of
             Some targetPiece \<Rightarrow> if fst targetPiece \<noteq> c then [s] else []
           | None \<Rightarrow> [])
        else []
      else [])"
    by (simp only: pawnCapture_def Let_def option.map s_def showNumber_digit [OF assms(2,3)])
  have "x = s \<and> getPiece g s \<noteq> None"
  proof (cases "getPiece g s")
    case None
    have "pawnCapture g c fi (Some i) d k = []"
      by (simp only: eq None option.case if_cancel)
    with m show ?thesis by simp
  next
    case (Some tp)
    have "pawnCapture g c fi (Some i) d k =
       (if 0 \<le> fi + k \<and> fi + k < 8 then
          if isValidSquare s then if fst tp \<noteq> c then [s] else [] else []
        else [])"
      by (simp only: eq Some option.case)
    with m Some show ?thesis by (simp split: if_splits)
  qed
  then show ?thesis unfolding s_def by blast
qed

lemma pawn_moves_cases:
  assumes i: "0 \<le> i" "i \<le> 7"
    and m: "to \<in> set (getPawnMoves g [f, digitChar (nat (i + 1))] c)"
  shows "(to = [f, digitChar (nat (i + 1 + pawnDirection c))] \<and> getPiece g to = None) \<or>
         (to = [f, digitChar (nat (i + 1 + 2 * pawnDirection c))] \<and> getPiece g to = None \<and>
          i = (if c = White then 1 else 6) \<and>
          getPiece g [f, digitChar (nat (i + 1 + pawnDirection c))] = None) \<or>
         (\<exists>f'. to = [f', digitChar (nat (i + 1 + pawnDirection c))] \<and> getPiece g to \<noteq> None)"
proof -
  have ri: "rankIndexOf (Some (digitChar (nat (i + 1)))) = Some i"
    using digit_rankIndex [of "i + 1"] i by simp
  have b1: "0 \<le> i + 1 + pawnDirection c" "i + 1 + pawnDirection c < 10"
    using i by (auto simp: pawnDirection_def)
  have one: "showNumber (Some (i + 1 + pawnDirection c)) = [digitChar (nat (i + 1 + pawnDirection c))]"
    by (rule showNumber_digit [OF b1])
  have two: "showNumber (Some (i + 1 + pawnDirection c * 2)) =
        [digitChar (nat (i + 1 + 2 * pawnDirection c))]"
    if "i = (if c = White then 1 else 6)"
  proof -
    have b: "0 \<le> i + 1 + 2 * pawnDirection c" "i + 1 + 2 * pawnDirection c < 10"
      using that by (auto simp: pawnDirection_def)
    have "pawnDirection c * 2 = 2 * pawnDirection c" by simp
    then show ?thesis using showNumber_digit [OF b] b by (simp only: simp_thms)
  qed
  have d: "(if c = White then 1 else - 1) = pawnDirection c"
    by (simp add: pawnDirection_def)
  define fwd where "fwd =
     (if isValidSquare [f, digitChar (nat (i + 1 + pawnDirection c))] \<and>
         getPiece g [f, digitChar (nat (i + 1 + pawnDirection c))] = None
      then [f, digitChar (nat (i + 1 + pawnDirection c))] #
        (if i = (if c = White then 1 else 6)
         then if isValidSquare (f # showNumber (Some (i + 1 + pawnDirection c * 2))) \<and>
                 getPiece g (f # showNumber (Some (i + 1 + pawnDirection c * 2))) = None
              then [f # showNumber (Some (i + 1 + pawnDirection c * 2))] else []
         else [])
      else [])"
  have eq: "getPawnMoves g [f, digitChar (nat (i + 1))] c =
      fwd @ concat (map (pawnCapture g c (fileIndexOf (Some f)) (Some i) (pawnDirection c)) [- 1, 1])"
    by (simp only: getPawnMoves_def Let_def fileOf_def rankOf_def list.case showChar_def
        option.case ri option.map one d append_Cons append_Nil option.inject fwd_def)
  from m have "to \<in> set fwd \<or>
      to \<in> set (pawnCapture g c (fileIndexOf (Some f)) (Some i) (pawnDirection c) (- 1)) \<or>
      to \<in> set (pawnCapture g c (fileIndexOf (Some f)) (Some i) (pawnDirection c) 1)"
    unfolding eq by simp
  then consider (F) "to \<in> set fwd"
    | (C) k where "to \<in> set (pawnCapture g c (fileIndexOf (Some f)) (Some i) (pawnDirection c) k)"
    by blast
  then show ?thesis
  proof cases
    case F
    then show ?thesis
      using two unfolding fwd_def by (auto split: if_splits)
  next
    case C
    from pawnCapture_member [OF C b1] show ?thesis by blast
  qed
qed

lemma filter_eq_single:
  "distinct xs \<Longrightarrow> x \<in> set xs \<Longrightarrow> filter (\<lambda>y. y = x) xs = [x]"
proof (induction xs)
  case Nil
  then show ?case by simp
next
  case (Cons a xs)
  show ?case
  proof (cases "a = x")
    case True
    then have "x \<notin> set xs" using Cons.prems(1) by simp
    then have "filter (\<lambda>y. y = x) xs = []" unfolding filter_empty_conv by blast
    then show ?thesis using True by simp
  next
    case False
    then show ?thesis using Cons by simp
  qed
qed

lemma filter_single:
  assumes "distinct xs" and "x \<in> set xs" and "P x" and "\<And>y. y \<in> set xs \<Longrightarrow> P y \<Longrightarrow> y = x"
  shows "filter P xs = [x]"
proof -
  have "filter P xs = filter (\<lambda>y. y = x) xs"
    by (rule filter_cong [OF refl]) (use assms(3,4) in blast)
  then show ?thesis
    using filter_eq_single [OF assms(1,2)] by simp
qed

lemma pawn_quiet_unique:
  assumes va: "isValidSquare a" and vb: "isValidSquare b"
    and pa: "getPiece g a \<noteq> None" and pb: "getPiece g b \<noteq> None"
    and ma: "to \<in> set (getPawnMoves g a c)" and mb: "to \<in> set (getPawnMoves g b c)"
    and e: "getPiece g to = None"
  shows "a = b"
proof -
  from va obtain fa ia where fa: "fa \<in> set ''abcdefgh''" and ia: "0 \<le> ia" "ia \<le> 7"
    and a: "a = [fa, digitChar (nat (ia + 1))]" by (rule square_coordinates)
  from vb obtain fb ib where fb: "fb \<in> set ''abcdefgh''" and ib: "0 \<le> ib" "ib \<le> 7"
    and b: "b = [fb, digitChar (nat (ib + 1))]" by (rule square_coordinates)
  let ?d = "pawnDirection c"
  have d: "?d = 1 \<or> ?d = - 1" by (simp add: pawnDirection_def)
  from pawn_moves_cases [OF ia ma [unfolded a]] e
  consider (one) "to = [fa, digitChar (nat (ia + 1 + ?d))]"
    | (two) "to = [fa, digitChar (nat (ia + 1 + 2 * ?d))]" "ia = (if c = White then 1 else 6)"
        "getPiece g [fa, digitChar (nat (ia + 1 + ?d))] = None"
    by (elim disjE conjE exE) simp_all
  then show ?thesis
  proof cases
    case one
    from pawn_moves_cases [OF ib mb [unfolded b]] e
    consider (one') "to = [fb, digitChar (nat (ib + 1 + ?d))]"
      | (two') "to = [fb, digitChar (nat (ib + 1 + 2 * ?d))]" "ib = (if c = White then 1 else 6)"
          "getPiece g [fb, digitChar (nat (ib + 1 + ?d))] = None"
      by (elim disjE conjE exE) simp_all
    then show ?thesis
    proof cases
      case one'
      with one have f: "fa = fb" and "digitChar (nat (ia + 1 + ?d)) = digitChar (nat (ib + 1 + ?d))"
        by simp_all
      then have "ia + 1 + ?d = ib + 1 + ?d"
        using ia ib d by (intro digit_inject) auto
      then show ?thesis using f a b by simp
    next
      case two'
      with one have f: "fa = fb" and "digitChar (nat (ia + 1 + ?d)) = digitChar (nat (ib + 1 + 2 * ?d))"
        by simp_all
      then have "ia + 1 + ?d = ib + 1 + 2 * ?d"
        using ia ib d two'(2) by (intro digit_inject) (auto simp: pawnDirection_def split: if_splits)
      then have "a = [fb, digitChar (nat (ib + 1 + ?d))]"
        using f a by (simp add: algebra_simps)
      with two'(3) pa show ?thesis by simp
    qed
  next
    case two
    from pawn_moves_cases [OF ib mb [unfolded b]] e
    consider (one') "to = [fb, digitChar (nat (ib + 1 + ?d))]"
      | (two') "to = [fb, digitChar (nat (ib + 1 + 2 * ?d))]" "ib = (if c = White then 1 else 6)"
      by (elim disjE conjE exE) simp_all
    then show ?thesis
    proof cases
      case one'
      with two have f: "fa = fb" and "digitChar (nat (ib + 1 + ?d)) = digitChar (nat (ia + 1 + 2 * ?d))"
        by simp_all
      then have "ib + 1 + ?d = ia + 1 + 2 * ?d"
        using ia ib d two(2) by (intro digit_inject) (auto simp: pawnDirection_def split: if_splits)
      then have "b = [fa, digitChar (nat (ia + 1 + ?d))]"
        using f b by (simp add: algebra_simps)
      with two(3) pb show ?thesis by simp
    next
      case two'
      with two have "fa = fb" "ia = ib" by simp_all
      then show ?thesis using a b by simp
    qed
  qed
qed

lemma pawn_capture_unique:
  assumes va: "isValidSquare a" and vb: "isValidSquare b" and f: "fileOf a = fileOf b"
    and ma: "to \<in> set (getPawnMoves g a c)" and mb: "to \<in> set (getPawnMoves g b c)"
    and e: "getPiece g to \<noteq> None"
  shows "a = b"
proof -
  from va obtain fa ia where ia: "0 \<le> ia" "ia \<le> 7"
    and a: "a = [fa, digitChar (nat (ia + 1))]" by (rule square_coordinates)
  from vb obtain fb ib where ib: "0 \<le> ib" "ib \<le> 7"
    and b: "b = [fb, digitChar (nat (ib + 1))]" by (rule square_coordinates)
  let ?d = "pawnDirection c"
  have d: "?d = 1 \<or> ?d = - 1" by (simp add: pawnDirection_def)
  from pawn_moves_cases [OF ia ma [unfolded a]] e
  obtain f' where "to = [f', digitChar (nat (ia + 1 + ?d))]"
    by (elim disjE conjE exE) simp_all
  moreover from pawn_moves_cases [OF ib mb [unfolded b]] e
  obtain f'' where "to = [f'', digitChar (nat (ib + 1 + ?d))]"
    by (elim disjE conjE exE) simp_all
  ultimately have "digitChar (nat (ia + 1 + ?d)) = digitChar (nat (ib + 1 + ?d))" by simp
  then have "ia + 1 + ?d = ib + 1 + ?d"
    using ia ib d by (intro digit_inject) auto
  moreover have "fa = fb" using f a b by (simp add: fileOf_def)
  ultimately show ?thesis using a b by simp
qed

lemma pawn_quiet_same_file:
  assumes v: "isValidSquare a" and m: "to \<in> set (getPawnMoves g a c)" and e: "getPiece g to = None"
  shows "fileOf to = fileOf a"
proof -
  from v obtain fa ia where ia: "0 \<le> ia" "ia \<le> 7"
    and a: "a = [fa, digitChar (nat (ia + 1))]" by (rule square_coordinates)
  from pawn_moves_cases [OF ia m [unfolded a]] e show ?thesis
    by (elim disjE conjE exE) (simp_all add: a fileOf_def)
qed

lemma validMove_facts:
  assumes "getPiece g from = Some (c, t)" and "to \<in> set (getValidMoves g from)"
  shows "c = currentPlayer g" and "isValidSquare to"
    and "map_option fst (getPiece g to) \<noteq> Some c"
    and "t = Pawn \<Longrightarrow> to \<in> set (getPawnMoves g from c)"
  using assms
  by (auto simp: getValidMoves_def canMoveTo_def split: if_splits option.splits)

lemma findCandidatePieces_single:
  assumes d: "distinct (map fst (position g))"
    and p: "getPiece g from = Some (currentPlayer g, t)"
    and m: "to \<in> set (getValidMoves g from)"
    and cf: "case cf of None \<Rightarrow> True | Some f \<Rightarrow> fileOf from = Some f"
    and cr: "case cr of None \<Rightarrow> True | Some r \<Rightarrow> rankOf from = Some r"
    and cap: "cap \<longleftrightarrow> getPiece g to \<noteq> None"
    and u: "\<And>sq. sq \<noteq> from \<Longrightarrow> getPiece g sq = Some (currentPlayer g, t) \<Longrightarrow>
              to \<in> set (getValidMoves g sq) \<Longrightarrow>
              (case cf of None \<Rightarrow> True | Some f \<Rightarrow> fileOf sq = Some f) \<Longrightarrow>
              (case cr of None \<Rightarrow> True | Some r \<Rightarrow> rankOf sq = Some r) \<Longrightarrow> False"
  shows "findCandidatePieces g (typeLetter t) to cf cr cap = [from]"
  unfolding findCandidatePieces_def Let_def
proof (rule filter_single [OF d])
  show "from \<in> set (map fst (position g))"
    using getPiece_in_keys [OF p] by simp
next
  have "map_option fst (getPiece g to) \<noteq> Some (currentPlayer g)"
    by (rule validMove_facts(3) [OF p m])
  then show "case propertyOf (position g) from of
      None \<Rightarrow> False
    | Some pc \<Rightarrow>
        pieceCode pc = [colorLetter (currentPlayer g), typeLetter t] \<and>
        (case cf of None \<Rightarrow> True | Some f \<Rightarrow> fileOf from = Some f) \<and>
        (case cr of None \<Rightarrow> True | Some r \<Rightarrow> rankOf from = Some r) \<and>
        to \<in> set (getValidMoves g from) \<and>
        (if cap
         then if getPiece g to \<noteq> None \<and> map_option fst (getPiece g to) \<noteq> Some (currentPlayer g)
              then True
              else if typeLetter t = CHR ''P'' \<and> getPiece g to = None
                   then if rankOf to = Some (if currentPlayer g = White then CHR ''6'' else CHR ''3'')
                        then case getPiece g
                                 (showChar (fileOf to) @
                                  (if currentPlayer g = White then ''5'' else ''4'')) of
                               None \<Rightarrow> False
                             | Some enPassantPiece \<Rightarrow>
                                 fst enPassantPiece \<noteq> currentPlayer g \<and> snd enPassantPiece = Pawn
                        else False
                   else False
         else getPiece g to = None)"
    using p [unfolded getPiece_def] m cf cr cap
    by (cases "getPiece g to") (simp_all add: pieceCode_eq)
next
  fix y
  assume "y \<in> set (map fst (position g))"
    and c: "case propertyOf (position g) y of
      None \<Rightarrow> False
    | Some pc \<Rightarrow>
        pieceCode pc = [colorLetter (currentPlayer g), typeLetter t] \<and>
        (case cf of None \<Rightarrow> True | Some f \<Rightarrow> fileOf y = Some f) \<and>
        (case cr of None \<Rightarrow> True | Some r \<Rightarrow> rankOf y = Some r) \<and>
        to \<in> set (getValidMoves g y) \<and>
        (if cap
         then if getPiece g to \<noteq> None \<and> map_option fst (getPiece g to) \<noteq> Some (currentPlayer g)
              then True
              else if typeLetter t = CHR ''P'' \<and> getPiece g to = None
                   then if rankOf to = Some (if currentPlayer g = White then CHR ''6'' else CHR ''3'')
                        then case getPiece g
                                 (showChar (fileOf to) @
                                  (if currentPlayer g = White then ''5'' else ''4'')) of
                               None \<Rightarrow> False
                             | Some enPassantPiece \<Rightarrow>
                                 fst enPassantPiece \<noteq> currentPlayer g \<and> snd enPassantPiece = Pawn
                        else False
                   else False
         else getPiece g to = None)"
  from c obtain pc where pc: "propertyOf (position g) y = Some pc"
    by (cases "propertyOf (position g) y") simp_all
  from c have q: "pieceCode pc = [colorLetter (currentPlayer g), typeLetter t]"
    "case cf of None \<Rightarrow> True | Some f \<Rightarrow> fileOf y = Some f"
    "case cr of None \<Rightarrow> True | Some r \<Rightarrow> rankOf y = Some r"
    "to \<in> set (getValidMoves g y)"
    unfolding pc option.case by blast+
  have "getPiece g y = Some (currentPlayer g, t)"
    using pc q(1) by (simp add: getPiece_def pieceCode_eq)
  then show "y = from"
    using u [of y] q(2,3,4) by blast
qed

lemma parse_resolves:
  assumes "\<not> isWhiteSpace x" and "r \<in> set ''12345678''"
    and "notationPattern (x # xs @ [r]) = Some (pieceType, cf, cr, cap, to)"
    and "findCandidatePieces g pieceType to cf cr cap = [from]"
  shows "parseAlgebraicNotation g (x # xs @ [r]) = Some (from, to)"
  by (simp add: parse_clean [OF assms(1,2)] assms(3,4))

lemma square_chars:
  assumes "isValidSquare sq"
  obtains f r where "sq = [f, r]" "f \<in> set ''abcdefgh''" "r \<in> set ''12345678''"
    "fileOf sq = Some f" "rankOf sq = Some r"
proof -
  from assms obtain f r where "sq = [f, r]" "f \<in> set ''abcdefgh''" "r \<in> set ''12345678''"
    unfolding isValidSquare_iff by blast
  then show ?thesis using that [of f r] by (simp add: fileOf_def rankOf_def)
qed

lemma round_trip_pawn:
  assumes inv: "gameInvariant g"
    and p: "getPiece g from = Some (currentPlayer g, Pawn)"
    and m: "to \<in> set (getValidMoves g from)"
  shows "parseAlgebraicNotation g
           (generateMoveNotation g from to (Some (currentPlayer g, Pawn)) (getPiece g to)) =
         Some (from, to)"
proof -
  have v: "validKeys g" and dk: "distinct (map fst (position g))"
    using inv by (simp_all add: gameInvariant_def)
  have vf: "isValidSquare from" by (rule validKeys_getPiece [OF v p])
  have vt: "isValidSquare to" by (rule validMove_isValidSquare [OF m])
  from vf obtain ff fr where f: "from = [ff, fr]" "ff \<in> set ''abcdefgh''" "fileOf from = Some ff"
    by (rule square_chars)
  from vt obtain tf tr where t: "to = [tf, tr]" "tf \<in> set ''abcdefgh''" "tr \<in> set ''12345678''"
    by (rule square_chars)
  have pm: "to \<in> set (getPawnMoves g from (currentPlayer g))"
    by (rule validMove_facts(4) [OF p m refl])
  have pawn_at: "isValidSquare sq \<and> to \<in> set (getPawnMoves g sq (currentPlayer g))"
    if "getPiece g sq = Some (currentPlayer g, Pawn)" "to \<in> set (getValidMoves g sq)" for sq
    using validKeys_getPiece [OF v that(1)] validMove_facts(4) [OF that refl] by simp
  show ?thesis
  proof (cases "getPiece g to")
    case None
    have sf: "fileOf to = fileOf from"
      by (rule pawn_quiet_same_file [OF vf pm None])
    have n: "generateMoveNotation g from to (Some (currentPlayer g, Pawn)) (getPiece g to) = tf # [] @ [tr]"
      using sf None by (simp add: generateMoveNotation_def t(1))
    have c: "findCandidatePieces g (typeLetter Pawn) to None None False = [from]"
    proof (rule findCandidatePieces_single [OF dk p m])
      fix sq
      assume "sq \<noteq> from" and q: "getPiece g sq = Some (currentPlayer g, Pawn)"
        and ms: "to \<in> set (getValidMoves g sq)"
      from pawn_at [OF q ms] have "sq = from"
        using pawn_quiet_unique [OF _ vf _ _ _ pm None, of sq] q p by simp
      with \<open>sq \<noteq> from\<close> show False by simp
    qed (simp_all add: None)
    have pat: "notationPattern (tf # [] @ [tr]) = Some (CHR ''P'', None, None, False, to)"
      using pattern_pawn_quiet [OF t(2,3)] by (simp add: t(1))
    have c': "findCandidatePieces g (CHR ''P'') to None None False = [from]"
      using c by (simp add: typeLetter_def)
    show ?thesis
      unfolding n by (rule parse_resolves [OF fileChar_classes(4) [OF t(2)] t(3) pat c'])
  next
    case (Some q)
    have n: "generateMoveNotation g from to (Some (currentPlayer g, Pawn)) (getPiece g to) =
               ff # [CHR ''x'', tf] @ [tr]"
      using Some by (simp add: generateMoveNotation_def t(1) f(3) showChar_def)
    have c: "findCandidatePieces g (typeLetter Pawn) to (Some ff) None True = [from]"
    proof (rule findCandidatePieces_single [OF dk p m])
      fix sq
      assume "sq \<noteq> from" and q: "getPiece g sq = Some (currentPlayer g, Pawn)"
        and ms: "to \<in> set (getValidMoves g sq)"
        and "case Some ff of None \<Rightarrow> True | Some f \<Rightarrow> fileOf sq = Some f"
      then have "fileOf sq = fileOf from" using f(3) by simp
      with pawn_at [OF q ms] have "sq = from"
        using pawn_capture_unique [OF _ vf _ _ pm, of sq] Some by simp
      with \<open>sq \<noteq> from\<close> show False by simp
    qed (simp_all add: Some f(3))
    have pat: "notationPattern (ff # [CHR ''x'', tf] @ [tr]) = Some (CHR ''P'', Some ff, None, True, to)"
      using pattern_pawn_capture [OF f(2) t(2,3)] by (simp add: t(1))
    have c': "findCandidatePieces g (CHR ''P'') to (Some ff) None True = [from]"
      using c by (simp add: typeLetter_def)
    show ?thesis
      unfolding n by (rule parse_resolves [OF fileChar_classes(4) [OF f(2)] t(3) pat c'])
  qed
qed

lemma round_trip_piece:
  assumes inv: "gameInvariant g"
    and p: "getPiece g from = Some (currentPlayer g, t)"
    and np: "t \<noteq> Pawn"
    and m: "to \<in> set (getValidMoves g from)"
  shows "parseAlgebraicNotation g
           (generateMoveNotation g from to (Some (currentPlayer g, t)) (getPiece g to)) =
         Some (from, to)"
proof -
  have v: "validKeys g" and dk: "distinct (map fst (position g))"
    using inv by (simp_all add: gameInvariant_def)
  have vf: "isValidSquare from" by (rule validKeys_getPiece [OF v p])
  have vt: "isValidSquare to" by (rule validMove_isValidSquare [OF m])
  from vf obtain ff fr where f: "from = [ff, fr]" "ff \<in> set ''abcdefgh''" "fr \<in> set ''12345678''"
    "fileOf from = Some ff" "rankOf from = Some fr"
    by (rule square_chars)
  from vt obtain tf tr where t: "to = [tf, tr]" "tf \<in> set ''abcdefgh''" "tr \<in> set ''12345678''"
    by (rule square_chars)
  define amb where "amb = findAmbiguousMoves g from to (Some (currentPlayer g, t))"
  define cap where "cap \<longleftrightarrow> getPiece g to \<noteq> None"
  define X where "X = (if getPiece g to = None then '''' else ''x'')"
  have amb_iff: "sq \<in> set amb \<longleftrightarrow>
      sq \<noteq> from \<and> getPiece g sq = Some (currentPlayer g, t) \<and> to \<in> set (getValidMoves g sq)" for sq
    unfolding amb_def findAmbiguousMoves_set by simp
  have ws: "\<not> isWhiteSpace (typeLetter t)" by (rule typeLetter_classes(3) [OF np])
  have n: "generateMoveNotation g from to (Some (currentPlayer g, t)) (getPiece g to) =
      typeLetter t #
        ((if amb = [] then ''''
          else if \<forall>a \<in> set amb. fileOf a \<noteq> fileOf from then [ff]
          else if \<forall>a \<in> set amb. rankOf a \<noteq> rankOf from then [fr]
          else from) @ X @ [tf]) @ [tr]"
    using generateMoveNotation_piece [of "(currentPlayer g, t)" g "from" "to" "getPiece g to"] np
    by (simp add: amb_def X_def t(1) f(4,5) showChar_def)
  have fin: "parseAlgebraicNotation g (typeLetter t # (D @ X @ [tf]) @ [tr]) = Some (from, to)"
    if c: "findCandidatePieces g (typeLetter t) to cf cr cap = [from]"
      and quiet: "notationPattern (typeLetter t # (D @ [tf]) @ [tr]) =
                    Some (typeLetter t, cf, cr, False, to)"
      and capture: "notationPattern (typeLetter t # (D @ ''x'' @ [tf]) @ [tr]) =
                    Some (typeLetter t, cf, cr, True, to)"
    for D cf cr
  proof (cases "getPiece g to")
    case None
    then have "X = ''''" "cap = False" by (simp_all add: X_def cap_def)
    with c quiet show ?thesis
      using parse_resolves [OF ws t(3), of "D @ [tf]" _ cf cr False "to" g "from"] by simp
  next
    case (Some q)
    then have "X = ''x''" "cap = True" by (simp_all add: X_def cap_def)
    with c capture show ?thesis
      using parse_resolves [OF ws t(3), of "D @ ''x'' @ [tf]" _ cf cr True "to" g "from"] by simp
  qed
  consider (noAmb) "amb = []"
    | (byFile) "amb \<noteq> []" "\<forall>a \<in> set amb. fileOf a \<noteq> fileOf from"
    | (byRank) "amb \<noteq> []" "\<not> (\<forall>a \<in> set amb. fileOf a \<noteq> fileOf from)"
        "\<forall>a \<in> set amb. rankOf a \<noteq> rankOf from"
    | (bothShared) "\<exists>a \<in> set amb. fileOf a = fileOf from" "\<exists>b \<in> set amb. rankOf b = rankOf from"
    by blast
  then show ?thesis
  proof cases
    case noAmb
    have c: "findCandidatePieces g (typeLetter t) to None None cap = [from]"
    proof (rule findCandidatePieces_single [OF dk p m])
      fix sq
      assume "sq \<noteq> from" "getPiece g sq = Some (currentPlayer g, t)"
        "to \<in> set (getValidMoves g sq)"
      then have "sq \<in> set amb" by (simp add: amb_iff)
      with noAmb show False by simp
    qed (simp_all add: cap_def)
    show ?thesis
      unfolding n using noAmb
        fin [OF c, of "''''"] pattern_piece [OF np t(2,3)] pattern_piece_capture [OF np t(2,3)]
      by (simp add: t(1))
  next
    case byFile
    have c: "findCandidatePieces g (typeLetter t) to (Some ff) None cap = [from]"
    proof (rule findCandidatePieces_single [OF dk p m])
      fix sq
      assume "sq \<noteq> from" "getPiece g sq = Some (currentPlayer g, t)"
        "to \<in> set (getValidMoves g sq)"
        and "case Some ff of None \<Rightarrow> True | Some f \<Rightarrow> fileOf sq = Some f"
      then have "sq \<in> set amb" "fileOf sq = fileOf from" by (simp_all add: amb_iff f(4))
      with byFile(2) show False by blast
    qed (simp_all add: cap_def f(4))
    show ?thesis
      unfolding n using byFile
        fin [OF c, of "[ff]"] pattern_piece_file [OF np f(2) t(2,3)]
        pattern_piece_file_capture [OF np f(2) t(2,3)]
      by (simp add: t(1))
  next
    case byRank
    have c: "findCandidatePieces g (typeLetter t) to None (Some fr) cap = [from]"
    proof (rule findCandidatePieces_single [OF dk p m])
      fix sq
      assume "sq \<noteq> from" "getPiece g sq = Some (currentPlayer g, t)"
        "to \<in> set (getValidMoves g sq)"
        and "case Some fr of None \<Rightarrow> True | Some r \<Rightarrow> rankOf sq = Some r"
      then have "sq \<in> set amb" "rankOf sq = rankOf from" by (simp_all add: amb_iff f(5))
      with byRank(3) show False by blast
    qed (simp_all add: cap_def f(5))
    have nf: "(\<forall>a \<in> set amb. fileOf a \<noteq> fileOf from) = False"
      using byRank(2) by blast
    show ?thesis
      unfolding n nf using byRank(1,3)
        fin [OF c, of "[fr]"] pattern_piece_rank [OF np f(3) t(2,3)]
        pattern_piece_rank_capture [OF np f(3) t(2,3)]
      by (simp add: t(1))
  next
    case bothShared
    then obtain a b where a: "a \<in> set amb" "fileOf a = fileOf from"
      and b: "b \<in> set amb" "rankOf b = rankOf from" by blast
    have "a = b"
      using ambiguous_unique [OF inv _ p, of a "to" b] np a(1) b(1) by (simp add: amb_def)
    with b(2) have ra: "rankOf a = rankOf from" by simp
    have "isValidSquare a"
      using a(1) validKeys_getPiece [OF v, of a] by (simp add: amb_iff)
    then obtain fa r where "a = [fa, r]" "fileOf a = Some fa" "rankOf a = Some r"
      by (rule square_chars)
    with a(2) ra f have "a = from" by simp
    with a(1) show ?thesis by (simp add: amb_iff)
  qed
qed

lemma round_trip_invariant:
  assumes inv: "gameInvariant g" and mv: "makeMove from to g = (True, g')"
  shows "parseAlgebraicNotation g (getLastMoveNotation g') = Some (from, to)"
proof -
  have v: "validKeys g" using inv by (simp add: gameInvariant_def)
  from makeMove_valid_success [OF v mv] obtain pc where
    p: "getPiece g from = Some pc" and c: "fst pc = currentPlayer g"
    and m: "to \<in> set (getValidMoves g from)"
    and h: "moveHistory g' = moveHistory g @
       [\<lparr>from_sq = from, to_sq = to, piece = Some pc, captured = getPiece g to,
         notationStr = generateMoveNotation g from to (Some pc) (getPiece g to)\<rparr>]"
    by auto
  have l: "getLastMoveNotation g' = generateMoveNotation g from to (Some pc) (getPiece g to)"
    using getLastMoveNotation_snoc [OF h] by simp
  obtain t where pc: "pc = (currentPlayer g, t)"
    using c by (cases pc) simp
  show ?thesis
  proof (cases "t = Pawn")
    case True
    show ?thesis
      unfolding l pc True
      by (rule round_trip_pawn [OF inv p [unfolded pc True] m])
  next
    case False
    show ?thesis
      unfolding l pc
      by (rule round_trip_piece [OF inv p [unfolded pc] False m])
  qed
qed

text \<open>
  Claim C2. For every game reached from the constructor by \<open>makeMove\<close> calls and
  every move that succeeds from it, parsing the notation recorded for the move against the
  game before the move returns exactly the move's origin and destination. No tie-break is
  ever needed: the candidate list of the parser is the single origin square.
\<close>

theorem notation_round_trip:
  assumes "makeMove from to (play ms newChessGame) = (True, g')"
  shows "parseAlgebraicNotation (play ms newChessGame) (getLastMoveNotation g') = Some (from, to)"
  by (rule round_trip_invariant [OF gameInvariant_play [OF gameInvariant_new] assms])

theorem notation_round_trip_witness:
  "makeMove ''b1'' ''c3'' (play [(''e2'', ''e4''), (''a7'', ''a6''), (''g1'', ''e2''), (''a6'', ''a5'')] newChessGame) =
     (True, snd (makeMove ''b1'' ''c3''
        (play [(''e2'', ''e4''), (''a7'', ''a6''), (''g1'', ''e2''), (''a6'', ''a5'')] newChessGame))) \<and>
   getLastMoveNotation (snd (makeMove ''b1'' ''c3''
        (play [(''e2'', ''e4''), (''a7'', ''a6''), (''g1'', ''e2''), (''a6'', ''a5'')] newChessGame))) = ''Nbc3'' \<and>
   parseAlgebraicNotation
     (play [(''e2'', ''e4''), (''a7'', ''a6''), (''g1'', ''e2''), (''a6'', ''a5'')] newChessGame) ''Nbc3'' =
     Some (''b1'', ''c3'')"
proof -
  let ?g = "play [(''e2'', ''e4''), (''a7'', ''a6''), (''g1'', ''e2''), (''a6'', ''a5'')] newChessGame"
  have m: "makeMove ''b1'' ''c3'' ?g = (True, snd (makeMove ''b1'' ''c3'' ?g))"
    by code_simp
  have n: "getLastMoveNotation (snd (makeMove ''b1'' ''c3'' ?g)) = ''Nbc3''"
    by code_simp
  from notation_round_trip [OF m] show ?thesis
    unfolding n using m n by (simp del: play.simps)
qed

end
